theory Spec2Isabelle
  imports Main "HOL-Library.Word"
begin

section \<open>JavaScript values\<close>

text \<open>
  A JavaScript string is a sequence of UTF-16 code units: \<open>.length\<close> counts code units and
  a regular expression without the \<open>u\<close> flag matches code unit by code unit. String
  literals of the source are written with \<open>jstr\<close>.
\<close>

type_synonym cu = "16 word"
type_synonym jsstring = "cu list"
type_synonym byte = "8 word"

definition jstr :: "string \<Rightarrow> jsstring" where
  "jstr s = map of_char s"

text \<open>
  The values \<open>JSON.parse\<close> produces, with \<open>undefined\<close> for an absent property. Numbers
  are the integral ones, which JavaScript prints in plain decimal below \<open>10^21\<close>; an
  object is the list of its own properties, each name once.
\<close>

datatype jsval =
    JUndefined
  | JNull
  | JBool bool
  | JNum int
  | JStr jsstring
  | JArr "jsval list"
  | JObj "(jsstring \<times> jsval) list"

datatype thrown =
    TypeError
  | AxiosError "jsval option" jsstring
    \<comment> \<open>\<open>error.response?.data\<close> when the error carries a response, and \<open>error.message\<close>\<close>

text \<open>\<open>!v\<close> is \<open>\<not> truthy v\<close>.\<close>

fun truthy :: "jsval \<Rightarrow> bool" where
  "truthy JUndefined = False"
| "truthy JNull = False"
| "truthy (JBool b) = b"
| "truthy (JNum n) = (n \<noteq> 0)"
| "truthy (JStr s) = (s \<noteq> [])"
| "truthy (JArr _) = True"
| "truthy (JObj _) = True"

fun nullish :: "jsval \<Rightarrow> bool" where
  "nullish JUndefined = True"
| "nullish JNull = True"
| "nullish _ = False"

text \<open>
  Property read on a value that is neither \<open>undefined\<close> nor \<open>null\<close>. The property names
  of the source (\<open>username\<close>, \<open>password\<close>, \<open>email\<close>, \<open>length\<close>, \<open>subsonic-response\<close>,
  \<open>status\<close>, \<open>error\<close>, \<open>message\<close>) are no array indices, and of them only \<open>length\<close> is
  supplied by a prototype: by strings and arrays.
\<close>

fun read_prop :: "jsstring \<Rightarrow> jsval \<Rightarrow> jsval" where
  "read_prop k (JObj kvs) = (case map_of kvs k of Some v \<Rightarrow> v | None \<Rightarrow> JUndefined)"
| "read_prop k (JStr s) = (if k = jstr ''length'' then JNum (int (length s)) else JUndefined)"
| "read_prop k (JArr vs) = (if k = jstr ''length'' then JNum (int (length vs)) else JUndefined)"
| "read_prop k _ = JUndefined"

text \<open>\<open>v.k\<close> and \<open>v[k]\<close>: a TypeError on \<open>undefined\<close> and \<open>null\<close>.\<close>

definition get_prop :: "jsstring \<Rightarrow> jsval \<Rightarrow> thrown + jsval" where
  "get_prop k v = (if nullish v then Inl TypeError else Inr (read_prop k v))"

text \<open>\<open>v?.k\<close> and \<open>v?.[k]\<close>.\<close>

definition opt_prop :: "jsstring \<Rightarrow> jsval \<Rightarrow> jsval" where
  "opt_prop k v = (if nullish v then JUndefined else read_prop k v)"

text \<open>\<open>a || b\<close>.\<close>

definition js_or :: "jsval \<Rightarrow> jsval \<Rightarrow> jsval" where
  "js_or a b = (if truthy a then a else b)"

subsection \<open>Conversion to string\<close>

function dec_nat :: "nat \<Rightarrow> jsstring" where
  "dec_nat n = (if n < 10 then [of_nat (48 + n)] else dec_nat (n div 10) @ [of_nat (48 + n mod 10)])"
  by pat_completeness auto
termination
  by (relation "measure id") auto

declare dec_nat.simps [simp del]

definition dec_int :: "int \<Rightarrow> jsstring" where
  "dec_int i = (if i < 0 then jstr ''-'' @ dec_nat (nat (- i)) else dec_nat (nat i))"

text \<open>
  \<open>ToString\<close>, with \<open>None\<close> for the TypeError it throws. An array is joined with commas,
  \<open>undefined\<close> and \<open>null\<close> elements giving the empty string. An object parsed from JSON
  prints as \<open>[object Object]\<close>, unless it has an own property \<open>toString\<close>: that one is
  not callable, \<open>valueOf\<close> does not return a primitive, and the conversion throws.
\<close>

fun ToString :: "jsval \<Rightarrow> jsstring option"
  and array_join :: "jsval list \<Rightarrow> jsstring option" where
  "ToString JUndefined = Some (jstr ''undefined'')"
| "ToString JNull = Some (jstr ''null'')"
| "ToString (JBool b) = Some (if b then jstr ''true'' else jstr ''false'')"
| "ToString (JNum n) = Some (dec_int n)"
| "ToString (JStr s) = Some s"
| "ToString (JArr vs) = array_join vs"
| "ToString (JObj kvs) =
     (if map_of kvs (jstr ''toString'') \<noteq> None then None else Some (jstr ''[object Object]''))"
| "array_join [] = Some []"
| "array_join (v # vs) =
     (case (if nullish v then Some [] else ToString v) of
        None \<Rightarrow> None
      | Some a \<Rightarrow>
          (if vs = [] then Some a
           else (case array_join vs of None \<Rightarrow> None | Some b \<Rightarrow> Some (a @ jstr '','' @ b))))"

section \<open>Regular expressions\<close>

text \<open>
  The two patterns of the handler use character classes, concatenation, \<open>+\<close> and a
  bounded repetition, between \<open>^\<close> and \<open>$\<close> and with no flag: \<open>test\<close> holds when the
  whole string matches. \<open>Space\<close> is the class escape \<open>\s\<close>.
\<close>

datatype citem = Lit cu | Range cu cu | Space

datatype rexp =
    Nul
  | Eps
  | Cls bool "citem list"   \<comment> \<open>\<open>Cls True\<close> is a negated class \<open>[^...]\<close>\<close>
  | Seq rexp rexp
  | Alt rexp rexp
  | Star rexp

definition white_space :: "cu \<Rightarrow> bool" where
  "white_space c \<longleftrightarrow>
     c = 0x09 \<or> c = 0x0A \<or> c = 0x0B \<or> c = 0x0C \<or> c = 0x0D \<or> c = 0x20 \<or> c = 0xA0 \<or>
     c = 0x1680 \<or> (0x2000 \<le> c \<and> c \<le> 0x200A) \<or> c = 0x2028 \<or> c = 0x2029 \<or>
     c = 0x202F \<or> c = 0x205F \<or> c = 0x3000 \<or> c = 0xFEFF"

fun item_has :: "citem \<Rightarrow> cu \<Rightarrow> bool" where
  "item_has (Lit a) c = (c = a)"
| "item_has (Range a b) c = (a \<le> c \<and> c \<le> b)"
| "item_has Space c = white_space c"

definition cls_has :: "bool \<Rightarrow> citem list \<Rightarrow> cu \<Rightarrow> bool" where
  "cls_has neg items c = (list_ex (\<lambda>i. item_has i c) items \<noteq> neg)"

fun nullable :: "rexp \<Rightarrow> bool" where
  "nullable Nul = False"
| "nullable Eps = True"
| "nullable (Cls neg items) = False"
| "nullable (Seq r s) = (nullable r \<and> nullable s)"
| "nullable (Alt r s) = (nullable r \<or> nullable s)"
| "nullable (Star r) = True"

fun deriv :: "rexp \<Rightarrow> cu \<Rightarrow> rexp" where
  "deriv Nul c = Nul"
| "deriv Eps c = Nul"
| "deriv (Cls neg items) c = (if cls_has neg items c then Eps else Nul)"
| "deriv (Seq r s) c =
     (if nullable r then Alt (Seq (deriv r c) s) (deriv s c) else Seq (deriv r c) s)"
| "deriv (Alt r s) c = Alt (deriv r c) (deriv s c)"
| "deriv (Star r) c = Seq (deriv r c) (Star r)"

definition test :: "rexp \<Rightarrow> jsstring \<Rightarrow> bool" where
  "test r s = nullable (foldl deriv r s)"

text \<open>\<open>r+\<close> and \<open>r{m,n}\<close>.\<close>

definition one_or_more :: "rexp \<Rightarrow> rexp" where
  "one_or_more r = Seq r (Star r)"

fun at_most :: "rexp \<Rightarrow> nat \<Rightarrow> rexp" where
  "at_most r 0 = Eps"
| "at_most r (Suc n) = Alt Eps (Seq r (at_most r n))"

fun exactly :: "rexp \<Rightarrow> nat \<Rightarrow> rexp \<Rightarrow> rexp" where
  "exactly r 0 k = k"
| "exactly r (Suc m) k = Seq r (exactly r m k)"

definition repeat :: "rexp \<Rightarrow> nat \<Rightarrow> nat \<Rightarrow> rexp" where
  "repeat r m n = exactly r m (at_most r (n - m))"

text \<open>\<open>regex.test(v)\<close> converts its argument to a string first.\<close>

definition regex_test :: "rexp \<Rightarrow> jsval \<Rightarrow> thrown + bool" where
  "regex_test r v = (case ToString v of None \<Rightarrow> Inl TypeError | Some s \<Rightarrow> Inr (test r s))"

text \<open>\<open>/^[a-zA-Z0-9_-]{3,20}$/\<close>\<close>

definition username_chars :: "citem list" where
  "username_chars = [Range 0x61 0x7A, Range 0x41 0x5A, Range 0x30 0x39, Lit 0x5F, Lit 0x2D]"

definition usernameRegex :: rexp where
  "usernameRegex = repeat (Cls False username_chars) 3 20"

text \<open>\<open>/^[^\s@]+@[^\s@]+\.[^\s@]+$/\<close>\<close>

definition emailRegex :: rexp where
  "emailRegex =
     Seq (one_or_more (Cls True [Space, Lit 0x40]))
       (Seq (Cls False [Lit 0x40])
         (Seq (one_or_more (Cls True [Space, Lit 0x40]))
           (Seq (Cls False [Lit 0x2E])
             (one_or_more (Cls True [Space, Lit 0x40])))))"

text \<open>
  The languages of the patterns, for the proofs: \<open>test r s\<close> decides \<open>s \<in> lang r\<close>.
\<close>

definition cat :: "jsstring set \<Rightarrow> jsstring set \<Rightarrow> jsstring set" where
  "cat A B = {u @ v | u v. u \<in> A \<and> v \<in> B}"

inductive_set kleene :: "jsstring set \<Rightarrow> jsstring set" for A :: "jsstring set" where
  kleene_nil: "[] \<in> kleene A"
| kleene_app: "u \<in> A \<Longrightarrow> v \<in> kleene A \<Longrightarrow> u @ v \<in> kleene A"

fun lang :: "rexp \<Rightarrow> jsstring set" where
  "lang Nul = {}"
| "lang Eps = {[]}"
| "lang (Cls neg items) = {[c] | c. cls_has neg items c}"
| "lang (Seq r s) = cat (lang r) (lang s)"
| "lang (Alt r s) = lang r \<union> lang s"
| "lang (Star r) = kleene (lang r)"

section \<open>The registration service (server.js)\<close>

subsection \<open>Configuration and runtime\<close>

text \<open>
  The three settings read from \<open>process.env\<close>: each is a string, or \<open>undefined\<close> when
  the variable is not set.
\<close>

record config =
  NAVIDROME_URL :: "jsstring option"
  ADMIN_USER :: "jsstring option"
  ADMIN_PASSWORD :: "jsstring option"

text \<open>
  What the Node.js runtime supplies: the bytes \<open>crypto.randomBytes\<close> hands out, one after
  the other; the MD5 digest of a string (of its UTF-8 encoding), as
  \<open>crypto.createHash('md5').update(s).digest()\<close> computes it; and the outcome of
  \<open>ToNumber(s) < n\<close> for a string \<open>s\<close>, which the handler reaches only when \<open>password\<close>
  is an object with an own \<open>length\<close> property that is not a number.
\<close>

record runtime =
  entropy :: "nat \<Rightarrow> byte"
  md5 :: "jsstring \<Rightarrow> byte list"
  StringToNumber_lt :: "jsstring \<Rightarrow> int \<Rightarrow> bool"

text \<open>A string built from a setting (template literal, \<open>+\<close> with a string).\<close>

definition env_string :: "jsstring option \<Rightarrow> jsstring" where
  "env_string v = (case v of None \<Rightarrow> jstr ''undefined'' | Some s \<Rightarrow> s)"

definition env_value :: "jsstring option \<Rightarrow> jsval" where
  "env_value v = (case v of None \<Rightarrow> JUndefined | Some s \<Rightarrow> JStr s)"

text \<open>\<open>v < n\<close> for a number \<open>n\<close>: the left operand becomes a primitive, then a number.\<close>

definition less_than :: "runtime \<Rightarrow> jsval \<Rightarrow> int \<Rightarrow> thrown + bool" where
  "less_than rt v n =
     (case v of
        JUndefined \<Rightarrow> Inr False
      | JNull \<Rightarrow> Inr (0 < n)
      | JBool b \<Rightarrow> Inr ((if b then 1 else 0) < n)
      | JNum i \<Rightarrow> Inr (i < n)
      | JStr s \<Rightarrow> Inr (StringToNumber_lt rt s n)
      | _ \<Rightarrow> (case ToString v of None \<Rightarrow> Inl TypeError
                                | Some s \<Rightarrow> Inr (StringToNumber_lt rt s n)))"

subsection \<open>Responses and the outbound call\<close>

record response =
  res_status :: nat
  res_body :: jsval

record outbound =
  get_url :: jsstring
  get_params :: "(jsstring \<times> jsval) list"

datatype axios_result =
    Resolved jsval              \<comment> \<open>\<open>response.data\<close>\<close>
  | Rejected "jsval option" jsstring
    \<comment> \<open>\<open>error.response?.data\<close> when there is a response, and \<open>error.message\<close>\<close>

text \<open>\<open>res.status(code).json({ success: false, error: msg })\<close>\<close>

definition reply_error :: "nat \<Rightarrow> jsval \<Rightarrow> response" where
  "reply_error code msg =
     \<lparr>res_status = code,
      res_body = JObj [(jstr ''success'', JBool False), (jstr ''error'', msg)]\<rparr>"

subsection \<open>generateSubsonicAuth\<close>

definition hex_digit :: "nat \<Rightarrow> cu" where
  "hex_digit n = (if n < 10 then of_nat (48 + n) else of_nat (87 + n))"

definition toHex :: "byte list \<Rightarrow> jsstring" where
  "toHex bs = concat (map (\<lambda>b. [hex_digit (unat b div 16), hex_digit (unat b mod 16)]) bs)"

text \<open>\<open>crypto.randomBytes(n)\<close>: the next \<open>n\<close> bytes of the source, which moves on.\<close>

definition randomBytes :: "runtime \<Rightarrow> nat \<Rightarrow> nat \<Rightarrow> byte list \<times> nat" where
  "randomBytes rt pos n = (map (entropy rt) [pos ..< pos + n], pos + n)"

definition generateSubsonicAuth ::
  "runtime \<Rightarrow> nat \<Rightarrow> jsstring option \<Rightarrow> (jsstring \<times> jsstring) \<times> nat" where
  "generateSubsonicAuth rt pos password =
     (let (bytes, pos') = randomBytes rt pos 16;
          salt = toHex bytes;
          token = toHex (md5 rt (env_string password @ salt))
      in ((salt, token), pos'))"

subsection \<open>POST /api/register\<close>

text \<open>
  Lines 43 to 76: a TypeError, a rejection, or the three fields. \<open>reqbody\<close> is
  \<open>req.body\<close> as \<open>express.json()\<close> left it; destructuring \<open>undefined\<close> or \<open>null\<close>
  throws.
\<close>

definition validation :: "runtime \<Rightarrow> jsval \<Rightarrow> thrown + (response + jsval \<times> jsval \<times> jsval)" where
  "validation rt reqbody =
     (if nullish reqbody then Inl TypeError
      else
        let username = read_prop (jstr ''username'') reqbody;
            password = read_prop (jstr ''password'') reqbody;
            email = read_prop (jstr ''email'') reqbody
        in
        if \<not> truthy username \<or> \<not> truthy password \<or> \<not> truthy email then
          Inr (Inl (reply_error 400 (JStr (jstr ''Username, password, and email are required''))))
        else
          (case regex_test usernameRegex username of
             Inl e \<Rightarrow> Inl e
           | Inr name_ok \<Rightarrow>
               if \<not> name_ok then
                 Inr (Inl (reply_error 400 (JStr (jstr
                   ''Username must be 3-20 characters (letters, numbers, underscore, hyphen only)''))))
               else
                 (case get_prop (jstr ''length'') password of
                    Inl e \<Rightarrow> Inl e
                  | Inr len \<Rightarrow>
                      (case less_than rt len 8 of
                         Inl e \<Rightarrow> Inl e
                       | Inr too_short \<Rightarrow>
                           if too_short then
                             Inr (Inl (reply_error 400 (JStr (jstr
                               ''Password must be at least 8 characters''))))
                           else
                             (case regex_test emailRegex email of
                                Inl e \<Rightarrow> Inl e
                              | Inr email_ok \<Rightarrow>
                                  if \<not> email_ok then
                                    Inr (Inl (reply_error 400 (JStr (jstr
                                      ''Invalid email format''))))
                                  else Inr (Inr (username, password, email)))))))"

text \<open>Lines 82 to 105: the URL and the query parameters of the call.\<close>

definition createUser_call ::
  "config \<Rightarrow> jsstring \<Rightarrow> jsstring \<Rightarrow> jsval \<Rightarrow> jsval \<Rightarrow> jsval \<Rightarrow> outbound" where
  "createUser_call cfg salt token username password email =
     \<lparr>get_url = env_string (NAVIDROME_URL cfg) @ jstr ''/rest/createUser'',
      get_params =
        [(jstr ''u'', env_value (ADMIN_USER cfg)),
         (jstr ''t'', JStr token),
         (jstr ''s'', JStr salt),
         (jstr ''v'', JStr (jstr ''1.16.1'')),
         (jstr ''c'', JStr (jstr ''NavidromeRegistration'')),
         (jstr ''f'', JStr (jstr ''json'')),
         (jstr ''username'', username),
         (jstr ''password'', password),
         (jstr ''email'', email),
         (jstr ''adminRole'', JBool False),
         (jstr ''downloadRole'', JBool True),
         (jstr ''uploadRole'', JBool True),
         (jstr ''playlistRole'', JBool True),
         (jstr ''shareRole'', JBool True),
         (jstr ''commentRole'', JBool True),
         (jstr ''podcastRole'', JBool True),
         (jstr ''streamRole'', JBool True),
         (jstr ''jukeboxRole'', JBool False),
         (jstr ''settingsRole'', JBool False),
         (jstr ''coverArtRole'', JBool True)]\<rparr>"

text \<open>Lines 110 to 122: the reply of the upstream server, once axios has resolved.\<close>

definition check_response :: "jsval \<Rightarrow> jsval \<Rightarrow> thrown + response" where
  "check_response username data =
     (case get_prop (jstr ''subsonic-response'') data of
        Inl e \<Rightarrow> Inl e
      | Inr sr \<Rightarrow>
          (case get_prop (jstr ''status'') sr of
             Inl e \<Rightarrow> Inl e
           | Inr st \<Rightarrow>
               if st = JStr (jstr ''ok'') then
                 Inr \<lparr>res_status = 200,
                      res_body = JObj [(jstr ''success'', JBool True),
                                       (jstr ''message'', JStr (jstr ''Account created successfully'')),
                                       (jstr ''username'', username)]\<rparr>
               else
                 (case get_prop (jstr ''error'') sr of
                    Inl e \<Rightarrow> Inl e
                  | Inr err \<Rightarrow>
                      (case get_prop (jstr ''message'') err of
                         Inl e \<Rightarrow> Inl e
                       | Inr msg \<Rightarrow>
                           Inr (reply_error 400
                                  (js_or msg (JStr (jstr ''Failed to create user''))))))))"

text \<open>
  Lines 124 to 140, the catch block. \<open>error.response\<close> is \<open>undefined\<close> on a TypeError
  and on an axios error that has no response. The line written with \<open>console.error\<close>
  goes to the log of the process and is no part of the response.
\<close>

definition embedded_error :: "thrown \<Rightarrow> jsval" where
  "embedded_error e =
     (case e of
        TypeError \<Rightarrow> JUndefined
      | AxiosError None m \<Rightarrow> JUndefined
      | AxiosError (Some data) m \<Rightarrow>
          opt_prop (jstr ''error'') (opt_prop (jstr ''subsonic-response'') data))"

definition catch_block :: "thrown \<Rightarrow> response" where
  "catch_block e =
     (if truthy (embedded_error e) then
        reply_error 400
          (js_or (read_prop (jstr ''message'') (embedded_error e))
                 (JStr (jstr ''User creation failed'')))
      else reply_error 500 (JStr (jstr ''Internal server error'')))"

text \<open>
  Lines 78 to 122 and the catch block around them: the response, the outbound calls made,
  and the position of the random source afterwards.
\<close>

definition create_user ::
  "runtime \<Rightarrow> config \<Rightarrow> (outbound \<Rightarrow> axios_result) \<Rightarrow> nat \<Rightarrow> jsval \<Rightarrow> jsval \<Rightarrow> jsval \<Rightarrow>
     response \<times> outbound list \<times> nat" where
  "create_user rt cfg axios_get pos username password email =
     (let ((salt, token), pos') = generateSubsonicAuth rt pos (ADMIN_PASSWORD cfg);
          call = createUser_call cfg salt token username password email
      in
        (case axios_get call of
           Rejected resp m \<Rightarrow> (catch_block (AxiosError resp m), [call], pos')
         | Resolved data \<Rightarrow>
             (case check_response username data of
                Inl e \<Rightarrow> (catch_block e, [call], pos')
              | Inr r \<Rightarrow> (r, [call], pos'))))"

text \<open>The handler of \<open>app.post('/api/register', ...)\<close>.\<close>

definition register ::
  "runtime \<Rightarrow> config \<Rightarrow> (outbound \<Rightarrow> axios_result) \<Rightarrow> nat \<Rightarrow> jsval \<Rightarrow>
     response \<times> outbound list \<times> nat" where
  "register rt cfg axios_get pos reqbody =
     (case validation rt reqbody of
        Inl e \<Rightarrow> (catch_block e, [], pos)
      | Inr (Inl rejection) \<Rightarrow> (rejection, [], pos)
      | Inr (Inr (username, password, email)) \<Rightarrow>
          create_user rt cfg axios_get pos username password email)"

text \<open>The call a registration issues when the random source stands at \<open>pos\<close>.\<close>

definition issued_call :: "runtime \<Rightarrow> config \<Rightarrow> nat \<Rightarrow> jsval \<Rightarrow> jsval \<Rightarrow> jsval \<Rightarrow> outbound" where
  "issued_call rt cfg pos username password email =
     (let (salt, token) = fst (generateSubsonicAuth rt pos (ADMIN_PASSWORD cfg))
      in createUser_call cfg salt token username password email)"

subsection \<open>GET /api/health\<close>

text \<open>
  \<open>res.json(obj)\<close> sends \<open>JSON.stringify(obj)\<close>, which leaves out a property whose value is
  \<open>undefined\<close>. In the handler of \<open>/api/register\<close> no property of a payload can be
  \<open>undefined\<close> (lemma \<open>register_payload_defined\<close>); here \<open>navidromeUrl\<close> is, when the
  variable is not set.
\<close>

definition sent_object :: "(jsstring \<times> jsval) list \<Rightarrow> jsval" where
  "sent_object kvs = JObj (filter (\<lambda>kv. snd kv \<noteq> JUndefined) kvs)"

text \<open>The handler \<open>(req, res) => ...\<close> of \<open>app.get('/api/health', ...)\<close>; it does not read \<open>req\<close>.\<close>

definition health :: "config \<Rightarrow> 'req \<Rightarrow> response \<times> outbound list" where
  "health cfg req =
     (\<lparr>res_status = 200,
       res_body = sent_object
                    [(jstr ''status'', JStr (jstr ''ok'')),
                     (jstr ''message'', JStr (jstr ''Registration service running'')),
                     (jstr ''navidromeUrl'', env_value (NAVIDROME_URL cfg))]\<rparr>,
      [])"

subsection \<open>The rate limiter in front of the handler\<close>

text \<open>
  Modelled from the spec: the counting of \<open>express-rate-limit\<close>, a dependency whose code
  is not in the repository. The spec describes a fixed window per limiter key, a map
  from keys to a counter with the time the window ends, updated by increment-and-check;
  the window length, the maximum and the rejection payload are those of lines 22 to 29.
  The first attempt of a key, or the first after its window has ended, opens a window.
\<close>

type_synonym limiter_store = "jsstring \<Rightarrow> (nat \<times> nat) option"

definition windowMs :: nat where
  "windowMs = 15 * 60 * 1000"

definition max_requests :: nat where
  "max_requests = 5"

definition limit_response :: response where
  "limit_response =
     \<lparr>res_status = 429,
      res_body = JObj [(jstr ''success'', JBool False),
                       (jstr ''error'', JStr (jstr
                          ''Too many registration attempts. Please try again later.''))]\<rparr>"

definition increment :: "limiter_store \<Rightarrow> jsstring \<Rightarrow> nat \<Rightarrow> nat \<times> nat" where
  "increment store key now =
     (case store key of
        None \<Rightarrow> (1, now + windowMs)
      | Some (count, reset) \<Rightarrow> if now < reset then (count + 1, reset) else (1, now + windowMs))"

definition registerLimiter ::
  "limiter_store \<Rightarrow> jsstring \<Rightarrow> nat \<Rightarrow> response option \<times> limiter_store" where
  "registerLimiter store key now =
     (let (count, reset) = increment store key now
      in (if max_requests < count then Some limit_response else None,
          store(key \<mapsto> (count, reset))))"

text \<open>
  The state of the process, and a request as it arrives: the limiter key (the client's
  address), the time in milliseconds, the parsed body, and how the upstream server
  answers the call made for it.
\<close>

record server =
  hits :: limiter_store
  rng :: nat

record request =
  req_key :: jsstring
  req_time :: nat
  req_body :: jsval
  upstream :: "outbound \<Rightarrow> axios_result"

text \<open>\<open>app.post('/api/register', registerLimiter, async (req, res) => ...)\<close>\<close>

definition post_register ::
  "runtime \<Rightarrow> config \<Rightarrow> server \<Rightarrow> request \<Rightarrow> (response \<times> outbound list) \<times> server" where
  "post_register rt cfg sv rq =
     (case registerLimiter (hits sv) (req_key rq) (req_time rq) of
        (Some rejection, store') \<Rightarrow> ((rejection, []), \<lparr>hits = store', rng = rng sv\<rparr>)
      | (None, store') \<Rightarrow>
          (let (r, calls, pos') = register rt cfg (upstream rq) (rng sv) (req_body rq)
           in ((r, calls), \<lparr>hits = store', rng = pos'\<rparr>)))"

fun serve_all ::
  "runtime \<Rightarrow> config \<Rightarrow> server \<Rightarrow> request list \<Rightarrow> (response \<times> outbound list) list" where
  "serve_all rt cfg sv [] = []"
| "serve_all rt cfg sv (rq # rqs) =
     (let (out, sv') = post_register rt cfg sv rq in out # serve_all rt cfg sv' rqs)"

text \<open>The outcomes of the requests of one limiter key, in order.\<close>

definition outcomes_of ::
  "jsstring \<Rightarrow> request list \<Rightarrow> (response \<times> outbound list) list \<Rightarrow> (response \<times> outbound list) list" where
  "outcomes_of key rqs outs = map snd (filter (\<lambda>p. req_key (fst p) = key) (zip rqs outs))"

text \<open>
  The state after a list of requests, the 16 bytes read from the random source at a
  position, and the credential pair a call carries.
\<close>

definition serve_state :: "runtime \<Rightarrow> config \<Rightarrow> server \<Rightarrow> request list \<Rightarrow> server" where
  "serve_state rt cfg sv rqs = foldl (\<lambda>s rq. snd (post_register rt cfg s rq)) sv rqs"

definition drawn :: "runtime \<Rightarrow> nat \<Rightarrow> byte list" where
  "drawn rt pos = map (entropy rt) [pos ..< pos + 16]"

definition carried :: "outbound \<Rightarrow> jsval option \<times> jsval option" where
  "carried call = (map_of (get_params call) (jstr ''s''), map_of (get_params call) (jstr ''t''))"

definition credential_at :: "runtime \<Rightarrow> config \<Rightarrow> nat \<Rightarrow> jsval option \<times> jsval option" where
  "credential_at rt cfg pos =
     (let (salt, token) = fst (generateSubsonicAuth rt pos (ADMIN_PASSWORD cfg))
      in (Some (JStr salt), Some (JStr token)))"

subsection \<open>Handlers that wait at the same time\<close>

text \<open>
  Node.js runs one handler at a time until it waits. The handler of a registration runs
  without interruption from line 42 to \<open>await axios.get(...)\<close> on line 107, and again
  from the settling of that promise to its response; in between, other requests can
  arrive and other promises can settle, in any order.
\<close>

datatype started =
    Answered response
  | Waiting jsval outbound   \<comment> \<open>\<open>username\<close>, kept for the answer, and the call on its way\<close>

definition register_start :: "runtime \<Rightarrow> config \<Rightarrow> nat \<Rightarrow> jsval \<Rightarrow> started \<times> nat" where
  "register_start rt cfg pos reqbody =
     (case validation rt reqbody of
        Inl e \<Rightarrow> (Answered (catch_block e), pos)
      | Inr (Inl rejection) \<Rightarrow> (Answered rejection, pos)
      | Inr (Inr (username, password, email)) \<Rightarrow>
          (let ((salt, token), pos') = generateSubsonicAuth rt pos (ADMIN_PASSWORD cfg)
           in (Waiting username (createUser_call cfg salt token username password email), pos')))"

definition register_resume :: "jsval \<Rightarrow> axios_result \<Rightarrow> response" where
  "register_resume username result =
     (case result of
        Rejected resp m \<Rightarrow> catch_block (AxiosError resp m)
      | Resolved data \<Rightarrow>
          (case check_response username data of Inl e \<Rightarrow> catch_block e | Inr r \<Rightarrow> r))"

text \<open>
  What happens to the process: a request arrives, with its limiter key, the time and
  the parsed body; or the promise of one of the waiting handlers settles. And what the
  process does in return.
\<close>

datatype event =
    Arrives jsstring nat jsval
  | Settles nat axios_result   \<comment> \<open>the number of the handler among those waiting\<close>

datatype effect = Responds response | Issues outbound | Ignored

record node =
  srv :: server
  waiting :: "(jsval \<times> outbound) list"

definition arrive :: "runtime \<Rightarrow> config \<Rightarrow> node \<Rightarrow> jsstring \<Rightarrow> nat \<Rightarrow> jsval \<Rightarrow> effect \<times> node" where
  "arrive rt cfg nd key now reqbody =
     (case registerLimiter (hits (srv nd)) key now of
        (Some rejection, store') \<Rightarrow>
          (Responds rejection,
           \<lparr>srv = \<lparr>hits = store', rng = rng (srv nd)\<rparr>, waiting = waiting nd\<rparr>)
      | (None, store') \<Rightarrow>
          (case register_start rt cfg (rng (srv nd)) reqbody of
             (Answered r, pos') \<Rightarrow>
               (Responds r, \<lparr>srv = \<lparr>hits = store', rng = pos'\<rparr>, waiting = waiting nd\<rparr>)
           | (Waiting username call, pos') \<Rightarrow>
               (Issues call,
                \<lparr>srv = \<lparr>hits = store', rng = pos'\<rparr>,
                 waiting = waiting nd @ [(username, call)]\<rparr>)))"

definition settle :: "node \<Rightarrow> nat \<Rightarrow> axios_result \<Rightarrow> effect \<times> node" where
  "settle nd n result =
     (if n < length (waiting nd) then
        (Responds (register_resume (fst (waiting nd ! n)) result),
         \<lparr>srv = srv nd, waiting = take n (waiting nd) @ drop (Suc n) (waiting nd)\<rparr>)
      else (Ignored, nd))"

fun occur :: "runtime \<Rightarrow> config \<Rightarrow> node \<Rightarrow> event \<Rightarrow> effect \<times> node" where
  "occur rt cfg nd (Arrives key now reqbody) = arrive rt cfg nd key now reqbody"
| "occur rt cfg nd (Settles n result) = settle nd n result"

fun process :: "runtime \<Rightarrow> config \<Rightarrow> node \<Rightarrow> event list \<Rightarrow> effect list" where
  "process rt cfg nd [] = []"
| "process rt cfg nd (ev # evs) =
     fst (occur rt cfg nd ev) # process rt cfg (snd (occur rt cfg nd ev)) evs"

fun issued :: "effect list \<Rightarrow> outbound list" where
  "issued [] = []"
| "issued (Issues call # effs) = call # issued effs"
| "issued (eff # effs) = issued effs"

section \<open>The validation rules as the specification words them\<close>

text \<open>
  The four rules over string fields, an absent field being \<open>None\<close>: all three present
  and non-empty; the username 3 to 20 characters out of ASCII letters, digits,
  underscore and hyphen; the password at least 8 characters; the email of the shape
  \<open>local@domain.tld\<close>, no part empty or holding whitespace or an \<open>@\<close>.
\<close>

datatype rejection = MissingFields | InvalidUsername | WeakPassword | InvalidEmail

definition username_char :: "cu \<Rightarrow> bool" where
  "username_char c \<longleftrightarrow>
     (0x61 \<le> c \<and> c \<le> 0x7A) \<or> (0x41 \<le> c \<and> c \<le> 0x5A) \<or> (0x30 \<le> c \<and> c \<le> 0x39) \<or>
     c = 0x5F \<or> c = 0x2D"

definition email_part :: "jsstring \<Rightarrow> bool" where
  "email_part w \<longleftrightarrow> w \<noteq> [] \<and> list_all (\<lambda>c. \<not> white_space c \<and> c \<noteq> 0x40) w"

definition email_shape :: "jsstring \<Rightarrow> bool" where
  "email_shape s \<longleftrightarrow>
     (\<exists>local domain tld. s = local @ [0x40] @ domain @ [0x2E] @ tld \<and>
        email_part local \<and> email_part domain \<and> email_part tld)"

definition spec_validate ::
  "jsstring option \<Rightarrow> jsstring option \<Rightarrow> jsstring option \<Rightarrow> rejection option" where
  "spec_validate username password email =
     (case (username, password, email) of
        (Some u, Some p, Some e) \<Rightarrow>
          if u = [] \<or> p = [] \<or> e = [] then Some MissingFields
          else if \<not> (3 \<le> length u \<and> length u \<le> 20 \<and> list_all username_char u)
            then Some InvalidUsername
          else if length p < 8 then Some WeakPassword
          else if \<not> email_shape e then Some InvalidEmail
          else None
      | _ \<Rightarrow> Some MissingFields)"

fun rejection_message :: "rejection \<Rightarrow> string" where
  "rejection_message MissingFields = ''Username, password, and email are required''"
| "rejection_message InvalidUsername =
     ''Username must be 3-20 characters (letters, numbers, underscore, hyphen only)''"
| "rejection_message WeakPassword = ''Password must be at least 8 characters''"
| "rejection_message InvalidEmail = ''Invalid email format''"

text \<open>A field that is a string, or absent.\<close>

fun string_field :: "jsval \<Rightarrow> jsstring option option" where
  "string_field JUndefined = Some None"
| "string_field (JStr s) = Some (Some s)"
| "string_field _ = None"

definition lower_hex :: "cu \<Rightarrow> bool" where
  "lower_hex c \<longleftrightarrow> (0x30 \<le> c \<and> c \<le> 0x39) \<or> (0x61 \<le> c \<and> c \<le> 0x66)"

section \<open>Sample inputs\<close>

definition sample_runtime :: runtime where
  "sample_runtime =
     \<lparr>entropy = (\<lambda>i. of_nat i), md5 = (\<lambda>s. [0x1F, 0xA0]), StringToNumber_lt = (\<lambda>s n. False)\<rparr>"

definition sample_config :: config where
  "sample_config =
     \<lparr>NAVIDROME_URL = Some (jstr ''http://nd:4533''), ADMIN_USER = Some (jstr ''admin''),
      ADMIN_PASSWORD = Some (jstr ''secret'')\<rparr>"

definition sample_body :: "jsval \<Rightarrow> jsval \<Rightarrow> jsval \<Rightarrow> jsval" where
  "sample_body username password email =
     JObj [(jstr ''username'', username), (jstr ''password'', password), (jstr ''email'', email)]"

definition alice_body :: jsval where
  "alice_body =
     sample_body (JStr (jstr ''alice'')) (JStr (jstr ''correct horse'')) (JStr (jstr ''a@b.co''))"

definition upstream_duplicate :: "outbound \<Rightarrow> axios_result" where
  "upstream_duplicate call =
     Resolved (JObj [(jstr ''subsonic-response'',
       JObj [(jstr ''status'', JStr (jstr ''failed'')),
             (jstr ''error'', JObj [(jstr ''code'', JNum 0),
                                    (jstr ''message'', JStr (jstr ''Username already exists''))])])])"



definition unset_config :: config where
  "unset_config = \<lparr>NAVIDROME_URL = None, ADMIN_USER = None, ADMIN_PASSWORD = None\<rparr>"


definition subsonic_reply :: "(jsstring \<times> jsval) list \<Rightarrow> jsval" where
  "subsonic_reply kvs = JObj [(jstr ''subsonic-response'', JObj kvs)]"

definition upstream_ok :: "outbound \<Rightarrow> axios_result" where
  "upstream_ok call = Resolved (subsonic_reply [(jstr ''status'', JStr (jstr ''ok''))])"

definition upstream_failed_without_error :: "outbound \<Rightarrow> axios_result" where
  "upstream_failed_without_error call =
     Resolved (subsonic_reply [(jstr ''status'', JStr (jstr ''failed''))])"


definition bob_body :: jsval where
  "bob_body =
     sample_body (JStr (jstr ''bob_2'')) (JStr (jstr ''hunter2hunter2'')) (JStr (jstr ''bob@mail.example.org''))"

definition account_created :: "jsval \<Rightarrow> response" where
  "account_created username =
     \<lparr>res_status = 200,
      res_body = JObj [(jstr ''success'', JBool True),
                       (jstr ''message'', JStr (jstr ''Account created successfully'')),
                       (jstr ''username'', username)]\<rparr>"

definition fresh_server :: server where
  "fresh_server = \<lparr>hits = (\<lambda>key. None), rng = 0\<rparr>"

definition attempt :: "string \<Rightarrow> nat \<Rightarrow> jsval \<Rightarrow> request" where
  "attempt address t reqbody =
     \<lparr>req_key = jstr address, req_time = t, req_body = reqbody, upstream = upstream_ok\<rparr>"

definition seven_attempts :: "request list" where
  "seven_attempts =
     [attempt ''10.0.0.1'' 1000 alice_body,
      attempt ''10.0.0.1'' 2000 (sample_body JUndefined JUndefined JUndefined),
      attempt ''10.0.0.1'' 60000 bob_body,
      attempt ''10.0.0.2'' 61000 alice_body,
      attempt ''10.0.0.1'' 300000 (JArr []),
      attempt ''10.0.0.1'' 600000 alice_body,
      attempt ''10.0.0.1'' 899000 bob_body,
      attempt ''10.0.0.1'' 900999 alice_body]"

definition fresh_node :: node where
  "fresh_node = \<lparr>srv = \<lparr>hits = (\<lambda>key. None), rng = 0\<rparr>, waiting = []\<rparr>"

definition two_at_once :: "event list" where
  "two_at_once =
     [Arrives (jstr ''10.0.0.1'') 1000 alice_body,
      Arrives (jstr ''10.0.0.2'') 1000 bob_body,
      Settles 1 (Resolved (subsonic_reply [(jstr ''status'', JStr (jstr ''ok''))])),
      Settles 0 (Resolved (subsonic_reply [(jstr ''status'', JStr (jstr ''ok''))]))]"

section \<open>The matcher decides the language of a pattern\<close>

lemma nullable_iff: "nullable r \<longleftrightarrow> [] \<in> lang r"
  by (induction r) (auto simp: cat_def intro: kleene_nil)

lemma cat_cons_iff:
  "c # w \<in> cat A B \<longleftrightarrow> (\<exists>u v. w = u @ v \<and> c # u \<in> A \<and> v \<in> B) \<or> ([] \<in> A \<and> c # w \<in> B)"
proof
  assume "c # w \<in> cat A B"
  then obtain u v where uv: "c # w = u @ v" "u \<in> A" "v \<in> B"
    by (auto simp: cat_def)
  show "(\<exists>u v. w = u @ v \<and> c # u \<in> A \<and> v \<in> B) \<or> ([] \<in> A \<and> c # w \<in> B)"
  proof (cases u)
    case Nil
    with uv show ?thesis by simp
  next
    case (Cons a u')
    with uv have "w = u' @ v" "c # u' \<in> A" by auto
    with uv(3) show ?thesis by blast
  qed
next
  assume "(\<exists>u v. w = u @ v \<and> c # u \<in> A \<and> v \<in> B) \<or> ([] \<in> A \<and> c # w \<in> B)"
  then show "c # w \<in> cat A B"
  proof
    assume "\<exists>u v. w = u @ v \<and> c # u \<in> A \<and> v \<in> B"
    then obtain u v where "w = u @ v" "c # u \<in> A" "v \<in> B" by blast
    then have "c # w = (c # u) @ v" by simp
    with \<open>c # u \<in> A\<close> \<open>v \<in> B\<close> show ?thesis unfolding cat_def by blast
  next
    assume "[] \<in> A \<and> c # w \<in> B"
    then have "c # w = [] @ (c # w)" "[] \<in> A" "c # w \<in> B" by simp_all
    then show ?thesis unfolding cat_def by blast
  qed
qed

lemma kleene_cons_split:
  assumes "x \<in> kleene A" and "x = c # w"
  shows "\<exists>u v. w = u @ v \<and> c # u \<in> A \<and> v \<in> kleene A"
  using assms
proof (induction arbitrary: w rule: kleene.induct)
  case kleene_nil
  then show ?case by simp
next
  case (kleene_app u v)
  show ?case
  proof (cases u)
    case Nil
    with kleene_app show ?thesis by simp
  next
    case (Cons a u')
    with kleene_app.prems have "w = u' @ v" "a = c" by auto
    with kleene_app.hyps Cons show ?thesis by blast
  qed
qed

lemma kleene_cons_iff:
  "c # w \<in> kleene A \<longleftrightarrow> (\<exists>u v. w = u @ v \<and> c # u \<in> A \<and> v \<in> kleene A)"
proof
  assume "c # w \<in> kleene A"
  then show "\<exists>u v. w = u @ v \<and> c # u \<in> A \<and> v \<in> kleene A"
    by (rule kleene_cons_split) simp
next
  assume "\<exists>u v. w = u @ v \<and> c # u \<in> A \<and> v \<in> kleene A"
  then obtain u v where "w = u @ v" "c # u \<in> A" "v \<in> kleene A" by blast
  then show "c # w \<in> kleene A"
    using kleene_app [of "c # u" A v] by simp
qed

lemma lang_deriv: "w \<in> lang (deriv r c) \<longleftrightarrow> c # w \<in> lang r"
proof (induction r arbitrary: w)
  case (Seq r s)
  then show ?case
    by (auto simp: cat_cons_iff nullable_iff) (auto simp: cat_def)
next
  case (Star r)
  then show ?case
    by (auto simp: kleene_cons_iff) (auto simp: cat_def)
qed auto

lemma lang_foldl_deriv: "w \<in> lang (foldl deriv r s) \<longleftrightarrow> s @ w \<in> lang r"
  by (induction s arbitrary: r) (simp_all add: lang_deriv)

lemma test_iff_lang: "test r s \<longleftrightarrow> s \<in> lang r"
  by (simp add: test_def nullable_iff lang_foldl_deriv)


lemma cat_cls_iff:
  "w \<in> cat {[c] | c. P c} B \<longleftrightarrow> (\<exists>c v. w = c # v \<and> P c \<and> v \<in> B)"
proof
  assume "w \<in> cat {[c] | c. P c} B"
  then show "\<exists>c v. w = c # v \<and> P c \<and> v \<in> B"
    by (auto simp: cat_def)
next
  assume "\<exists>c v. w = c # v \<and> P c \<and> v \<in> B"
  then obtain c v where cv: "w = c # v" "P c" "v \<in> B" by blast
  then have "w = [c] @ v" "[c] \<in> {[c] | c. P c}" by auto
  with cv(3) show "w \<in> cat {[c] | c. P c} B"
    unfolding cat_def by blast
qed

lemma lang_at_most:
  "w \<in> lang (at_most (Cls neg items) n) \<longleftrightarrow> length w \<le> n \<and> list_all (cls_has neg items) w"
proof (induction n arbitrary: w)
  case 0
  then show ?case by auto
next
  case (Suc n)
  then show ?case by (cases w) (auto simp: cat_cls_iff)
qed

lemma lang_exactly:
  "w \<in> lang (exactly (Cls neg items) m k) \<longleftrightarrow>
     (\<exists>u v. w = u @ v \<and> length u = m \<and> list_all (cls_has neg items) u \<and> v \<in> lang k)"
proof (induction m arbitrary: w)
  case 0
  then show ?case by simp
next
  case (Suc m)
  show ?case
  proof
    assume "w \<in> lang (exactly (Cls neg items) (Suc m) k)"
    then obtain c w' where w: "w = c # w'" "cls_has neg items c"
      "w' \<in> lang (exactly (Cls neg items) m k)"
      by (auto simp: cat_cls_iff)
    with Suc obtain u v where "w' = u @ v" "length u = m" "list_all (cls_has neg items) u"
      "v \<in> lang k" by blast
    with w have "w = (c # u) @ v \<and> length (c # u) = Suc m \<and>
      list_all (cls_has neg items) (c # u) \<and> v \<in> lang k" by simp
    then show "\<exists>u v. w = u @ v \<and> length u = Suc m \<and> list_all (cls_has neg items) u \<and>
      v \<in> lang k" by blast
  next
    assume "\<exists>u v. w = u @ v \<and> length u = Suc m \<and> list_all (cls_has neg items) u \<and>
      v \<in> lang k"
    then obtain u v where uv: "w = u @ v" "length u = Suc m"
      "list_all (cls_has neg items) u" "v \<in> lang k" by blast
    then obtain c u' where u: "u = c # u'" "length u' = m" by (auto simp: length_Suc_conv)
    with uv Suc [of "u' @ v"] have "u' @ v \<in> lang (exactly (Cls neg items) m k)" by auto
    with uv u show "w \<in> lang (exactly (Cls neg items) (Suc m) k)"
      by (auto simp: cat_cls_iff)
  qed
qed

lemma lang_repeat:
  assumes "m \<le> n"
  shows "w \<in> lang (repeat (Cls neg items) m n) \<longleftrightarrow>
     m \<le> length w \<and> length w \<le> n \<and> list_all (cls_has neg items) w"
proof
  assume "w \<in> lang (repeat (Cls neg items) m n)"
  then obtain u v where "w = u @ v" "length u = m" "list_all (cls_has neg items) u"
    "length v \<le> n - m" "list_all (cls_has neg items) v"
    by (auto simp: repeat_def lang_exactly lang_at_most)
  with assms show "m \<le> length w \<and> length w \<le> n \<and> list_all (cls_has neg items) w"
    by auto
next
  assume a: "m \<le> length w \<and> length w \<le> n \<and> list_all (cls_has neg items) w"
  let ?u = "take m w" and ?v = "drop m w"
  from a have "w = ?u @ ?v" "length ?u = m" "length ?v \<le> n - m" by auto
  moreover from a have "list_all (cls_has neg items) ?u" "list_all (cls_has neg items) ?v"
    by (auto simp: list_all_iff dest: in_set_takeD in_set_dropD)
  ultimately show "w \<in> lang (repeat (Cls neg items) m n)"
    unfolding repeat_def lang_exactly lang_at_most by blast
qed

lemma cls_username_chars: "cls_has False username_chars = username_char"
  by (rule ext) (auto simp: cls_has_def username_chars_def username_char_def)

lemma test_usernameRegex:
  "test usernameRegex s \<longleftrightarrow> 3 \<le> length s \<and> length s \<le> 20 \<and> list_all username_char s"
  by (simp add: test_iff_lang usernameRegex_def lang_repeat cls_username_chars)

lemma kleene_cls:
  "w \<in> kleene {[c] | c. P c} \<longleftrightarrow> list_all P w"
proof (induction w)
  case Nil
  show ?case by (simp add: kleene_nil)
next
  case (Cons a w)
  then show ?case by (auto simp: kleene_cons_iff)
qed

lemma lang_one_or_more:
  "lang (one_or_more (Cls neg items)) = {w. w \<noteq> [] \<and> list_all (cls_has neg items) w}"
proof -
  have "w \<in> lang (one_or_more (Cls neg items)) \<longleftrightarrow> w \<noteq> [] \<and> list_all (cls_has neg items) w"
    for w
    by (cases w) (auto simp: one_or_more_def cat_cls_iff kleene_cls)
  then show ?thesis by blast
qed

lemma cls_not_space_at: "cls_has True [Space, Lit 0x40] = (\<lambda>c. \<not> white_space c \<and> c \<noteq> 0x40)"
  by (rule ext) (auto simp: cls_has_def)

lemma test_emailRegex: "test emailRegex s \<longleftrightarrow> email_shape s"
proof -
  have part: "lang (one_or_more (Cls True [Space, Lit 0x40])) = {w. email_part w}"
    by (simp add: lang_one_or_more cls_not_space_at email_part_def)
  have lit: "lang (Cls False [Lit a]) = {[a]}" for a
    by (auto simp: cls_has_def)
  have "s \<in> lang emailRegex \<longleftrightarrow>
      (\<exists>u v. s = u @ v \<and> email_part u \<and>
         (\<exists>w. v = 0x40 # w \<and>
            (\<exists>u' v'. w = u' @ v' \<and> email_part u' \<and> (\<exists>w'. v' = 0x2E # w' \<and> email_part w'))))"
    unfolding emailRegex_def lang.simps(4) part lit cat_def by auto
  also have "\<dots> \<longleftrightarrow> email_shape s"
    unfolding email_shape_def by (simp only: append_Cons append_Nil) blast
  finally show ?thesis by (simp add: test_iff_lang)
qed

section \<open>Evaluating the decimal rendering\<close>

lemma dec_nat_digit: "n < 10 \<Longrightarrow> dec_nat n = [of_nat (48 + n)]"
  by (simp add: dec_nat.simps)

lemma dec_nat_more: "\<not> n < 10 \<Longrightarrow> dec_nat n = dec_nat (n div 10) @ [of_nat (48 + n mod 10)]"
  by (subst dec_nat.simps) simp

section \<open>Validation\<close>

lemma string_field_cases:
  assumes "string_field v = Some x"
  obtains "v = JUndefined" "x = None" | s where "v = JStr s" "x = Some s"
  using assms by (cases v) auto

lemma length_of_string: "get_prop (jstr ''length'') (JStr s) = Inr (JNum (int (length s)))"
  by (simp add: get_prop_def)

lemma regex_test_string: "regex_test r (JStr s) = Inr (test r s)"
  by (simp add: regex_test_def)

lemma validation_of_strings:
  assumes "\<not> nullish reqbody"
    and "read_prop (jstr ''username'') reqbody = JStr u"
    and "read_prop (jstr ''password'') reqbody = JStr p"
    and "read_prop (jstr ''email'') reqbody = JStr e"
  shows "validation rt reqbody =
    (case spec_validate (Some u) (Some p) (Some e) of
       Some rj \<Rightarrow> Inr (Inl (reply_error 400 (JStr (jstr (rejection_message rj)))))
     | None \<Rightarrow> Inr (Inr (JStr u, JStr p, JStr e)))"
  using assms
  by (simp add: validation_def spec_validate_def regex_test_string length_of_string
      less_than_def test_usernameRegex test_emailRegex)

lemma validation_of_absent:
  assumes "\<not> nullish reqbody"
    and "read_prop (jstr ''username'') reqbody = JUndefined \<or>
         read_prop (jstr ''password'') reqbody = JUndefined \<or>
         read_prop (jstr ''email'') reqbody = JUndefined"
  shows "validation rt reqbody =
    Inr (Inl (reply_error 400 (JStr (jstr (rejection_message MissingFields)))))"
  using assms by (auto simp: validation_def)

text \<open>
  C1, amended. For every request whose body is an object (anything but \<open>undefined\<close> and
  \<open>null\<close>) in which each of \<open>username\<close>, \<open>password\<close> and \<open>email\<close> is a string or absent,
  the handler applies the four rules of the specification in order: the first rule that
  fails decides the response, status 400 with that rule's message, no outbound call is
  made and the random source is not read; when no rule fails the request goes on to the
  creation of the user.
\<close>

theorem register_applies_rules_in_order:
  assumes "\<not> nullish reqbody"
    and "string_field (read_prop (jstr ''username'') reqbody) = Some u"
    and "string_field (read_prop (jstr ''password'') reqbody) = Some p"
    and "string_field (read_prop (jstr ''email'') reqbody) = Some e"
  shows "register rt cfg axios_get pos reqbody =
    (case spec_validate u p e of
       Some rj \<Rightarrow> (reply_error 400 (JStr (jstr (rejection_message rj))), [], pos)
     | None \<Rightarrow>
         create_user rt cfg axios_get pos (read_prop (jstr ''username'') reqbody)
           (read_prop (jstr ''password'') reqbody) (read_prop (jstr ''email'') reqbody))"
proof (cases "u = None \<or> p = None \<or> e = None")
  case True
  with assms(2-4) have "read_prop (jstr ''username'') reqbody = JUndefined \<or>
      read_prop (jstr ''password'') reqbody = JUndefined \<or>
      read_prop (jstr ''email'') reqbody = JUndefined"
    by (auto elim!: string_field_cases)
  with assms(1) have "validation rt reqbody =
      Inr (Inl (reply_error 400 (JStr (jstr (rejection_message MissingFields)))))"
    by (rule validation_of_absent)
  moreover from True have "spec_validate u p e = Some MissingFields"
    by (auto simp: spec_validate_def split: option.splits)
  ultimately show ?thesis by (simp add: register_def)
next
  case False
  then obtain us ps es where s: "u = Some us" "p = Some ps" "e = Some es" by auto
  with assms(2-4) have f: "read_prop (jstr ''username'') reqbody = JStr us"
      "read_prop (jstr ''password'') reqbody = JStr ps"
      "read_prop (jstr ''email'') reqbody = JStr es"
    by (auto elim!: string_field_cases)
  show ?thesis
    unfolding register_def validation_of_strings [OF assms(1) f] s f
    by (cases "spec_validate (Some us) (Some ps) (Some es)") simp_all
qed

text \<open>
  A username of two characters, a password of five and an email with no \<open>@\<close>: the
  username rule is the first to fail and its message is the one returned.
\<close>

theorem register_applies_rules_in_order_witness:
  "\<not> nullish (sample_body (JStr (jstr ''al'')) (JStr (jstr ''short'')) (JStr (jstr ''nobody''))) \<and>
   string_field (read_prop (jstr ''username'')
     (sample_body (JStr (jstr ''al'')) (JStr (jstr ''short'')) (JStr (jstr ''nobody'')))) =
     Some (Some (jstr ''al'')) \<and>
   string_field (read_prop (jstr ''password'')
     (sample_body (JStr (jstr ''al'')) (JStr (jstr ''short'')) (JStr (jstr ''nobody'')))) =
     Some (Some (jstr ''short'')) \<and>
   string_field (read_prop (jstr ''email'')
     (sample_body (JStr (jstr ''al'')) (JStr (jstr ''short'')) (JStr (jstr ''nobody'')))) =
     Some (Some (jstr ''nobody'')) \<and>
   register sample_runtime sample_config upstream_ok 0
     (sample_body (JStr (jstr ''al'')) (JStr (jstr ''short'')) (JStr (jstr ''nobody''))) =
     (reply_error 400 (JStr (jstr
        ''Username must be 3-20 characters (letters, numbers, underscore, hyphen only)'')), [], 0)"
proof -
  let ?b = "sample_body (JStr (jstr ''al'')) (JStr (jstr ''short'')) (JStr (jstr ''nobody''))"
  have b: "\<not> nullish ?b" by (simp add: sample_body_def)
  have u: "string_field (read_prop (jstr ''username'') ?b) = Some (Some (jstr ''al''))"
    by (simp add: sample_body_def jstr_def)
  have p: "string_field (read_prop (jstr ''password'') ?b) = Some (Some (jstr ''short''))"
    by (simp add: sample_body_def jstr_def)
  have e: "string_field (read_prop (jstr ''email'') ?b) = Some (Some (jstr ''nobody''))"
    by (simp add: sample_body_def jstr_def)
  have v: "spec_validate (Some (jstr ''al'')) (Some (jstr ''short'')) (Some (jstr ''nobody'')) =
      Some InvalidUsername"
    by (simp add: spec_validate_def jstr_def)
  from register_applies_rules_in_order [OF b u p e, of sample_runtime sample_config upstream_ok 0]
  have "register sample_runtime sample_config upstream_ok 0 ?b =
      (reply_error 400 (JStr (jstr (rejection_message InvalidUsername))), [], 0)"
    by (simp add: v)
  with b u p e show ?thesis by simp
qed

text \<open>
  C1 as stated fails where a field is not a string. The password \<open>1234567\<close>, a number,
  is seven characters long when printed and has no \<open>length\<close>; the request is answered
  with status 200 and one outbound call is made.
\<close>

theorem number_password_counterexample:
  "read_prop (jstr ''password'')
     (sample_body (JStr (jstr ''alice'')) (JNum 1234567) (JStr (jstr ''a@b.co''))) = JNum 1234567 \<and>
   ToString (JNum 1234567) = Some (jstr ''1234567'') \<and>
   length (jstr ''1234567'') = 7 \<and>
   res_status (fst (register sample_runtime sample_config upstream_ok 0
     (sample_body (JStr (jstr ''alice'')) (JNum 1234567) (JStr (jstr ''a@b.co''))))) = 200 \<and>
   length (fst (snd (register sample_runtime sample_config upstream_ok 0
     (sample_body (JStr (jstr ''alice'')) (JNum 1234567) (JStr (jstr ''a@b.co'')))))) = 1"
proof -
  let ?b = "sample_body (JStr (jstr ''alice'')) (JNum 1234567) (JStr (jstr ''a@b.co''))"
  have 1: "read_prop (jstr ''password'') ?b = JNum 1234567"
    by code_simp
  have 2: "ToString (JNum 1234567) = Some (jstr ''1234567'')"
    by (simp add: dec_int_def dec_nat_digit dec_nat_more jstr_def)
  have 3: "length (jstr ''1234567'') = 7"
    by (simp add: jstr_def)
  have 4: "res_status (fst (register sample_runtime sample_config upstream_ok 0 ?b)) = 200"
    by code_simp
  have 5: "length (fst (snd (register sample_runtime sample_config upstream_ok 0 ?b))) = 1"
    by code_simp
  from 1 2 3 4 5 show ?thesis by blast
qed

section \<open>The creation of the user\<close>

lemma generateSubsonicAuth_eq:
  "generateSubsonicAuth rt pos pw =
     ((toHex (map (entropy rt) [pos ..< pos + 16]),
       toHex (md5 rt (env_string pw @ toHex (map (entropy rt) [pos ..< pos + 16])))),
      pos + 16)"
  by (simp add: generateSubsonicAuth_def randomBytes_def Let_def)

lemma create_user_eq:
  "create_user rt cfg axios_get pos username password email =
     ((case axios_get (issued_call rt cfg pos username password email) of
         Rejected resp m \<Rightarrow> catch_block (AxiosError resp m)
       | Resolved data \<Rightarrow>
           (case check_response username data of Inl e \<Rightarrow> catch_block e | Inr r \<Rightarrow> r)),
      [issued_call rt cfg pos username password email], pos + 16)"
  by (simp add: create_user_def issued_call_def generateSubsonicAuth_eq Let_def
      split: axios_result.splits sum.splits)

lemma validation_passes_fields:
  assumes "validation rt reqbody = Inr (Inr (username, password, email))"
  shows "username = read_prop (jstr ''username'') reqbody"
    and "password = read_prop (jstr ''password'') reqbody"
    and "email = read_prop (jstr ''email'') reqbody"
    and "truthy username" and "truthy password" and "truthy email"
  using assms
  by (auto simp: validation_def Let_def split: if_splits sum.splits)

lemma register_passes:
  assumes "validation rt reqbody = Inr (Inr (username, password, email))"
  shows "register rt cfg axios_get pos reqbody =
    create_user rt cfg axios_get pos username password email"
  using assms by (simp add: register_def)

lemma internal_error_on_TypeError:
  "catch_block TypeError = reply_error 500 (JStr (jstr ''Internal server error''))"
  by (simp add: catch_block_def embedded_error_def)

lemma alice_passes:
  "validation sample_runtime alice_body =
     Inr (Inr (JStr (jstr ''alice''), JStr (jstr ''correct horse''), JStr (jstr ''a@b.co'')))"
  by code_simp

lemma alice_passes_any:
  "validation rt alice_body =
     Inr (Inr (JStr (jstr ''alice''), JStr (jstr ''correct horse''), JStr (jstr ''a@b.co'')))"
  by code_simp

lemma bob_passes_any:
  "validation rt bob_body =
     Inr (Inr (JStr (jstr ''bob_2''), JStr (jstr ''hunter2hunter2''),
               JStr (jstr ''bob@mail.example.org'')))"
  by code_simp

section \<open>A reply with status ok\<close>




section \<open>A reply with another status\<close>

lemma check_response_failed:
  assumes "\<not> nullish (opt_prop (jstr ''subsonic-response'') data)"
    and "opt_prop (jstr ''status'') (opt_prop (jstr ''subsonic-response'') data) \<noteq> JStr (jstr ''ok'')"
  shows "check_response username data =
    (if nullish (opt_prop (jstr ''error'') (opt_prop (jstr ''subsonic-response'') data))
     then Inl TypeError
     else Inr (reply_error 400
       (js_or (read_prop (jstr ''message'')
                 (opt_prop (jstr ''error'') (opt_prop (jstr ''subsonic-response'') data)))
              (JStr (jstr ''Failed to create user'')))))"
proof -
  from assms(1) have d: "\<not> nullish data"
    and r: "opt_prop (jstr ''subsonic-response'') data = read_prop (jstr ''subsonic-response'') data"
    by (auto simp: opt_prop_def split: if_splits)
  from assms(1) r have s: "\<not> nullish (read_prop (jstr ''subsonic-response'') data)"
    by simp
  from assms(2) s show ?thesis
    unfolding r by (simp add: check_response_def get_prop_def opt_prop_def d)
qed

lemma register_upstream_failed:
  assumes "validation rt reqbody = Inr (Inr (username, password, email))"
    and "axios_get (issued_call rt cfg pos username password email) = Resolved data"
    and "\<not> nullish (opt_prop (jstr ''subsonic-response'') data)"
    and "opt_prop (jstr ''status'') (opt_prop (jstr ''subsonic-response'') data) \<noteq> JStr (jstr ''ok'')"
    and "\<not> nullish (opt_prop (jstr ''error'') (opt_prop (jstr ''subsonic-response'') data))"
  shows "fst (register rt cfg axios_get pos reqbody) =
    (if truthy (read_prop (jstr ''message'')
          (opt_prop (jstr ''error'') (opt_prop (jstr ''subsonic-response'') data)))
     then reply_error 400 (read_prop (jstr ''message'')
          (opt_prop (jstr ''error'') (opt_prop (jstr ''subsonic-response'') data)))
     else reply_error 400 (JStr (jstr ''Failed to create user'')))"
  using assms(2,5)
  by (simp add: register_passes [OF assms(1)] create_user_eq check_response_failed [OF assms(3,4)]
      js_or_def)

text \<open>
  C3, at the input where the code departs from it. For every request that passes
  validation, when the outbound call resolves with a \<open>subsonic-response\<close> whose status is
  not \<open>ok\<close> and which carries no \<open>error\<close> object, reading \<open>error.message\<close> throws and
  the response is status 500 with the internal-error message, not status 400 with
  \<open>Failed to create user\<close>. With an \<open>error\<close> object the response is as C3 says
  (\<open>register_upstream_failed\<close>).
\<close>

theorem register_failed_without_error_object:
  assumes "validation rt reqbody = Inr (Inr (username, password, email))"
    and "axios_get (issued_call rt cfg pos username password email) = Resolved data"
    and "\<not> nullish (opt_prop (jstr ''subsonic-response'') data)"
    and "opt_prop (jstr ''status'') (opt_prop (jstr ''subsonic-response'') data) \<noteq> JStr (jstr ''ok'')"
    and "nullish (opt_prop (jstr ''error'') (opt_prop (jstr ''subsonic-response'') data))"
  shows "fst (register rt cfg axios_get pos reqbody) =
    reply_error 500 (JStr (jstr ''Internal server error''))"
  using assms(2,5)
  by (simp add: register_passes [OF assms(1)] create_user_eq check_response_failed [OF assms(3,4)]
      internal_error_on_TypeError)

text \<open>The reply \<open>{"subsonic-response": {"status": "failed"}}\<close>.\<close>

theorem register_failed_without_error_object_witness:
  "validation sample_runtime alice_body =
     Inr (Inr (JStr (jstr ''alice''), JStr (jstr ''correct horse''), JStr (jstr ''a@b.co''))) \<and>
   upstream_failed_without_error (issued_call sample_runtime sample_config 0
       (JStr (jstr ''alice'')) (JStr (jstr ''correct horse'')) (JStr (jstr ''a@b.co''))) =
     Resolved (subsonic_reply [(jstr ''status'', JStr (jstr ''failed''))]) \<and>
   opt_prop (jstr ''subsonic-response'') (subsonic_reply [(jstr ''status'', JStr (jstr ''failed''))]) =
     JObj [(jstr ''status'', JStr (jstr ''failed''))] \<and>
   opt_prop (jstr ''status'') (JObj [(jstr ''status'', JStr (jstr ''failed''))]) =
     JStr (jstr ''failed'') \<and>
   opt_prop (jstr ''error'') (JObj [(jstr ''status'', JStr (jstr ''failed''))]) = JUndefined \<and>
   fst (register sample_runtime sample_config upstream_failed_without_error 0 alice_body) =
     reply_error 500 (JStr (jstr ''Internal server error''))"
proof -
  let ?d = "subsonic_reply [(jstr ''status'', JStr (jstr ''failed''))]"
  let ?sr = "JObj [(jstr ''status'', JStr (jstr ''failed''))]"
  have u: "upstream_failed_without_error (issued_call sample_runtime sample_config 0
       (JStr (jstr ''alice'')) (JStr (jstr ''correct horse'')) (JStr (jstr ''a@b.co''))) =
     Resolved ?d"
    by (simp add: upstream_failed_without_error_def)
  have sr: "opt_prop (jstr ''subsonic-response'') ?d = ?sr"
    by (simp add: opt_prop_def subsonic_reply_def)
  have st: "opt_prop (jstr ''status'') ?sr = JStr (jstr ''failed'')"
    by (simp add: opt_prop_def)
  have er: "opt_prop (jstr ''error'') ?sr = JUndefined"
    by (simp add: opt_prop_def jstr_def)
  have ne: "JStr (jstr ''failed'') \<noteq> JStr (jstr ''ok'')"
    by (simp add: jstr_def)
  from register_failed_without_error_object
    [where axios_get = upstream_failed_without_error and cfg = sample_config and pos = 0,
      OF alice_passes u]
    sr st er ne
  have "fst (register sample_runtime sample_config upstream_failed_without_error 0 alice_body) =
     reply_error 500 (JStr (jstr ''Internal server error''))"
    by simp
  with alice_passes u sr st er show ?thesis by simp
qed

section \<open>A call that fails\<close>



section \<open>The credential pair\<close>

lemma hex_digit_lower: "n < 16 \<Longrightarrow> lower_hex (hex_digit n)"
proof -
  assume "n < 16"
  then have "n \<in> {0, 1, 2, 3, 4, 5, 6, 7, 8, 9, 10, 11, 12, 13, 14, 15}"
    by simp arith
  then show ?thesis
    by (auto simp: hex_digit_def lower_hex_def)
qed

lemma toHex_lower: "list_all lower_hex (toHex bs)"
proof (induction bs)
  case Nil
  show ?case by (simp add: toHex_def)
next
  case (Cons b bs)
  have "unat b < 256" using unsigned_less [of b] by simp
  then have "unat b div 16 < 16" by simp
  with Cons show ?case by (simp add: toHex_def hex_digit_lower)
qed

lemma length_toHex: "length (toHex bs) = 2 * length bs"
  by (induction bs) (simp_all add: toHex_def)

text \<open>
  What \<open>generateSubsonicAuth\<close> computes, for every source of bytes and every digest
  function: the salt is the hex encoding of the next 16 bytes of the source, 32
  lowercase hex characters, and the token is the lowercase hex encoding of the digest of
  the password followed by the salt. Which source and which digest these are is decided
  by Node's \<open>crypto\<close> module, outside this code.
\<close>

lemma generateSubsonicAuth_pair:
  "(let ((salt, token), pos') = generateSubsonicAuth rt pos password
    in salt = toHex (map (entropy rt) [pos ..< pos + 16]) \<and>
       length salt = 32 \<and> list_all lower_hex salt \<and>
       token = toHex (md5 rt (env_string password @ salt)) \<and>
       list_all lower_hex token \<and>
       length token = 2 * length (md5 rt (env_string password @ salt)) \<and>
       pos' = pos + 16)"
  by (simp add: generateSubsonicAuth_eq toHex_lower length_toHex)

lemma sample_salt:
  "toHex (map (entropy sample_runtime) [0 ..< 0 + 16]) = jstr ''000102030405060708090a0b0c0d0e0f''"
  by code_simp

lemma sample_token: "toHex (md5 sample_runtime s) = jstr ''1fa0''"
proof -
  have "toHex [0x1F, 0xA0] = jstr ''1fa0''" by code_simp
  then show ?thesis by (simp add: sample_runtime_def)
qed

lemma generateSubsonicAuth_sample:
  "generateSubsonicAuth sample_runtime 0 (Some (jstr ''secret'')) =
     ((jstr ''000102030405060708090a0b0c0d0e0f'', jstr ''1fa0''), 16)"
  using sample_salt by (simp add: generateSubsonicAuth_eq sample_token)

section \<open>The outbound call\<close>

text \<open>
  C6. For every request that passes validation, the one outbound call goes to
  \<open>NAVIDROME_URL\<close> followed by \<open>/rest/createUser\<close>, with \<open>v\<close>, \<open>c\<close> and \<open>f = json\<close> fixed, the
  three fields of the request as they came, and the eleven role flags constant:
  \<open>adminRole\<close>, \<open>jukeboxRole\<close> and \<open>settingsRole\<close> false, the other eight true.
\<close>

theorem register_outbound_call:
  assumes "validation rt reqbody = Inr (Inr (username, password, email))"
  shows "fst (snd (register rt cfg axios_get pos reqbody)) =
    (let salt = toHex (map (entropy rt) [pos ..< pos + 16]);
         token = toHex (md5 rt (env_string (ADMIN_PASSWORD cfg) @ salt))
     in [\<lparr>get_url = env_string (NAVIDROME_URL cfg) @ jstr ''/rest/createUser'',
          get_params =
            [(jstr ''u'', env_value (ADMIN_USER cfg)),
             (jstr ''t'', JStr token),
             (jstr ''s'', JStr salt),
             (jstr ''v'', JStr (jstr ''1.16.1'')),
             (jstr ''c'', JStr (jstr ''NavidromeRegistration'')),
             (jstr ''f'', JStr (jstr ''json'')),
             (jstr ''username'', read_prop (jstr ''username'') reqbody),
             (jstr ''password'', read_prop (jstr ''password'') reqbody),
             (jstr ''email'', read_prop (jstr ''email'') reqbody),
             (jstr ''adminRole'', JBool False),
             (jstr ''downloadRole'', JBool True),
             (jstr ''uploadRole'', JBool True),
             (jstr ''playlistRole'', JBool True),
             (jstr ''shareRole'', JBool True),
             (jstr ''commentRole'', JBool True),
             (jstr ''podcastRole'', JBool True),
             (jstr ''streamRole'', JBool True),
             (jstr ''jukeboxRole'', JBool False),
             (jstr ''settingsRole'', JBool False),
             (jstr ''coverArtRole'', JBool True)]\<rparr>])"
  using validation_passes_fields(1-3) [OF assms]
  by (simp add: register_passes [OF assms] create_user_eq issued_call_def generateSubsonicAuth_eq
      createUser_call_def Let_def)

text \<open>The call made for \<open>alice\<close>.\<close>

theorem register_outbound_call_witness:
  "validation sample_runtime alice_body =
     Inr (Inr (JStr (jstr ''alice''), JStr (jstr ''correct horse''), JStr (jstr ''a@b.co''))) \<and>
   fst (snd (register sample_runtime sample_config upstream_ok 0 alice_body)) =
     [\<lparr>get_url = jstr ''http://nd:4533/rest/createUser'',
       get_params =
         [(jstr ''u'', JStr (jstr ''admin'')),
          (jstr ''t'', JStr (jstr ''1fa0'')),
          (jstr ''s'', JStr (jstr ''000102030405060708090a0b0c0d0e0f'')),
          (jstr ''v'', JStr (jstr ''1.16.1'')),
          (jstr ''c'', JStr (jstr ''NavidromeRegistration'')),
          (jstr ''f'', JStr (jstr ''json'')),
          (jstr ''username'', JStr (jstr ''alice'')),
          (jstr ''password'', JStr (jstr ''correct horse'')),
          (jstr ''email'', JStr (jstr ''a@b.co'')),
          (jstr ''adminRole'', JBool False),
          (jstr ''downloadRole'', JBool True),
          (jstr ''uploadRole'', JBool True),
          (jstr ''playlistRole'', JBool True),
          (jstr ''shareRole'', JBool True),
          (jstr ''commentRole'', JBool True),
          (jstr ''podcastRole'', JBool True),
          (jstr ''streamRole'', JBool True),
          (jstr ''jukeboxRole'', JBool False),
          (jstr ''settingsRole'', JBool False),
          (jstr ''coverArtRole'', JBool True)]\<rparr>]"
proof -
  have f: "read_prop (jstr ''username'') alice_body = JStr (jstr ''alice'')"
    "read_prop (jstr ''password'') alice_body = JStr (jstr ''correct horse'')"
    "read_prop (jstr ''email'') alice_body = JStr (jstr ''a@b.co'')"
    by (simp_all add: alice_body_def sample_body_def jstr_def)
  have c: "env_string (NAVIDROME_URL sample_config) @ jstr ''/rest/createUser'' =
      jstr ''http://nd:4533/rest/createUser''"
    "env_value (ADMIN_USER sample_config) = JStr (jstr ''admin'')"
    by (simp_all add: sample_config_def env_string_def env_value_def jstr_def)
  from register_outbound_call [OF alice_passes, of sample_config upstream_ok 0] alice_passes
  show ?thesis
    by (simp only: Let_def f c sample_salt sample_token)
qed

section \<open>The health endpoint\<close>

text \<open>
  No payload of the registration handler has a property that is \<open>undefined\<close>: what
  \<open>res.json\<close> sends is the object it was given.
\<close>

lemma register_payload_defined:
  "\<exists>kvs. res_body (fst (register rt cfg axios_get pos reqbody)) = JObj kvs \<and>
         sent_object kvs = JObj kvs"
proof -
  have err: "\<exists>kvs. res_body (reply_error code msg) = JObj kvs \<and> sent_object kvs = JObj kvs"
    if "msg \<noteq> JUndefined" for code msg
    using that by (simp add: reply_error_def sent_object_def)
  have alt: "js_or a (JStr s) \<noteq> JUndefined" for a s
    by (cases a) (simp_all add: js_or_def)
  have caught: "\<exists>kvs. res_body (catch_block e) = JObj kvs \<and> sent_object kvs = JObj kvs" for e
    by (simp add: catch_block_def err alt)
  show ?thesis
  proof (cases "validation rt reqbody")
    case (Inl e)
    then show ?thesis by (simp add: register_def caught)
  next
    case (Inr v)
    show ?thesis
    proof (cases v)
      case (Inl rejection)
      with Inr have "validation rt reqbody = Inr (Inl rejection)" by simp
      then have "rejection \<in> {reply_error 400 (JStr (jstr (rejection_message rj))) | rj. True}"
        by (auto simp: validation_def Let_def split: if_splits sum.splits)
          (metis rejection_message.simps)+
      then obtain rj where "rejection = reply_error 400 (JStr (jstr (rejection_message rj)))"
        by blast
      with Inr Inl show ?thesis by (simp add: register_def err)
    next
      case (Inr fields)
      obtain u p e where f: "fields = (u, p, e)" by (cases fields)
      with Inr \<open>validation rt reqbody = Inr v\<close>
      have v: "validation rt reqbody = Inr (Inr (u, p, e))" by simp
      then have "truthy u" by (rule validation_passes_fields(4))
      then have u: "u \<noteq> JUndefined" by auto
      have "\<exists>kvs. res_body r = JObj kvs \<and> sent_object kvs = JObj kvs"
        if "check_response u data = Inr r" for data r
        using that u
        by (auto simp: check_response_def sent_object_def reply_error_def alt
            split: sum.splits if_splits)
      then show ?thesis
        by (auto simp: register_passes [OF v] create_user_eq caught
            split: axios_result.splits sum.splits)
    qed
  qed
qed

text \<open>
  C9. Whatever the request, the health endpoint answers with status 200 and a payload
  of \<open>status\<close> \<open>ok\<close>, a fixed message and, under \<open>navidromeUrl\<close>, the configured upstream
  URL, and makes no outbound call. When no URL is configured the payload has the first
  two entries only.
\<close>

theorem health_reports_configuration:
  "health cfg req =
     (\<lparr>res_status = 200,
       res_body = JObj ([(jstr ''status'', JStr (jstr ''ok'')),
                         (jstr ''message'', JStr (jstr ''Registration service running''))] @
                        (case NAVIDROME_URL cfg of
                           None \<Rightarrow> []
                         | Some url \<Rightarrow> [(jstr ''navidromeUrl'', JStr url)]))\<rparr>,
      [])"
  by (simp add: health_def sent_object_def env_value_def split: option.splits)

text \<open>The payload with the URL configured, and with no variable set.\<close>

theorem health_reports_configuration_witness:
  "health sample_config () =
     (\<lparr>res_status = 200,
       res_body = JObj [(jstr ''status'', JStr (jstr ''ok'')),
                        (jstr ''message'', JStr (jstr ''Registration service running'')),
                        (jstr ''navidromeUrl'', JStr (jstr ''http://nd:4533''))]\<rparr>,
      []) \<and>
   health unset_config () =
     (\<lparr>res_status = 200,
       res_body = JObj [(jstr ''status'', JStr (jstr ''ok'')),
                        (jstr ''message'', JStr (jstr ''Registration service running''))]\<rparr>,
      [])"
  using health_reports_configuration [of sample_config "()"]
    health_reports_configuration [of unset_config "()"]
  by (simp add: sample_config_def unset_config_def)

section \<open>A password that is not a string\<close>

text \<open>
  C10. When the password is a number other than zero, and username and email are valid
  strings, the presence check and the length check both pass: validation succeeds and
  the number is the \<open>password\<close> parameter of the outbound call.
\<close>

theorem number_password_is_forwarded:
  assumes "\<not> nullish reqbody"
    and "read_prop (jstr ''username'') reqbody = JStr u"
    and "3 \<le> length u" and "length u \<le> 20" and "list_all username_char u"
    and "read_prop (jstr ''password'') reqbody = JNum n" and "n \<noteq> 0"
    and "read_prop (jstr ''email'') reqbody = JStr e" and "email_shape e"
  shows "validation rt reqbody = Inr (Inr (JStr u, JNum n, JStr e)) \<and>
    fst (snd (register rt cfg axios_get pos reqbody)) =
      [issued_call rt cfg pos (JStr u) (JNum n) (JStr e)] \<and>
    map_of (get_params (issued_call rt cfg pos (JStr u) (JNum n) (JStr e))) (jstr ''password'') =
      Some (JNum n)"
proof -
  from assms(3) have "u \<noteq> []" by auto
  moreover from assms(9) have "e \<noteq> []" by (auto simp: email_shape_def)
  moreover have "get_prop (jstr ''length'') (JNum n) = Inr JUndefined"
    by (simp add: get_prop_def)
  moreover have "less_than rt JUndefined 8 = Inr False"
    by (simp add: less_than_def)
  ultimately have v: "validation rt reqbody = Inr (Inr (JStr u, JNum n, JStr e))"
    using assms
    by (simp add: validation_def regex_test_string test_usernameRegex test_emailRegex)
  have "map_of (get_params (issued_call rt cfg pos (JStr u) (JNum n) (JStr e))) (jstr ''password'') =
      Some (JNum n)"
    by (simp add: issued_call_def createUser_call_def generateSubsonicAuth_eq jstr_def)
  with v show ?thesis
    by (simp add: register_passes [OF v] create_user_eq)
qed

text \<open>The password \<open>1234567\<close>, seven characters when printed.\<close>

theorem number_password_is_forwarded_witness:
  "\<not> nullish (sample_body (JStr (jstr ''alice'')) (JNum 1234567) (JStr (jstr ''a@b.co''))) \<and>
   read_prop (jstr ''password'')
     (sample_body (JStr (jstr ''alice'')) (JNum 1234567) (JStr (jstr ''a@b.co''))) = JNum 1234567 \<and>
   truthy (JNum 1234567) \<and>
   map_option length (ToString (JNum 1234567)) = Some 7 \<and>
   validation sample_runtime
     (sample_body (JStr (jstr ''alice'')) (JNum 1234567) (JStr (jstr ''a@b.co''))) =
     Inr (Inr (JStr (jstr ''alice''), JNum 1234567, JStr (jstr ''a@b.co''))) \<and>
   fst (snd (register sample_runtime sample_config upstream_ok 0
     (sample_body (JStr (jstr ''alice'')) (JNum 1234567) (JStr (jstr ''a@b.co''))))) =
     [issued_call sample_runtime sample_config 0
        (JStr (jstr ''alice'')) (JNum 1234567) (JStr (jstr ''a@b.co''))] \<and>
   map_of (get_params (issued_call sample_runtime sample_config 0
        (JStr (jstr ''alice'')) (JNum 1234567) (JStr (jstr ''a@b.co'')))) (jstr ''password'') =
     Some (JNum 1234567)"
proof -
  let ?b = "sample_body (JStr (jstr ''alice'')) (JNum 1234567) (JStr (jstr ''a@b.co''))"
  have b: "\<not> nullish ?b" by (simp add: sample_body_def)
  have f: "read_prop (jstr ''username'') ?b = JStr (jstr ''alice'')"
    "read_prop (jstr ''password'') ?b = JNum 1234567"
    "read_prop (jstr ''email'') ?b = JStr (jstr ''a@b.co'')"
    by (simp_all add: sample_body_def jstr_def)
  have u: "3 \<le> length (jstr ''alice'')" "length (jstr ''alice'') \<le> 20"
    "list_all username_char (jstr ''alice'')"
    by (simp_all add: jstr_def username_char_def)
  have "jstr ''a@b.co'' = jstr ''a'' @ [0x40] @ jstr ''b'' @ [0x2E] @ jstr ''co''"
    by (simp add: jstr_def)
  moreover have "email_part (jstr ''a'')" "email_part (jstr ''b'')" "email_part (jstr ''co'')"
    by (simp_all add: email_part_def jstr_def white_space_def)
  ultimately have e: "email_shape (jstr ''a@b.co'')"
    unfolding email_shape_def by blast
  have n: "(1234567 :: int) \<noteq> 0" by simp
  have r: "map_option length (ToString (JNum 1234567)) = Some 7"
    by (simp add: dec_int_def dec_nat_digit dec_nat_more)
  from number_password_is_forwarded [OF b f(1) u f(2) n f(3) e,
      of sample_runtime sample_config upstream_ok 0] b f(2) r
  show ?thesis by simp
qed

section \<open>The rate limiter\<close>

lemma increment_running:
  assumes "store key = Some (c, reset)" and "now < reset"
  shows "increment store key now = (Suc c, reset)"
  using assms by (simp add: increment_def)

lemma increment_opening:
  assumes "case store key of None \<Rightarrow> True | Some (c, reset) \<Rightarrow> reset \<le> now"
  shows "increment store key now = (1, now + windowMs)"
  using assms by (auto simp: increment_def split: option.splits)

lemma post_register_eq:
  "post_register rt cfg sv rq =
     (if max_requests < fst (increment (hits sv) (req_key rq) (req_time rq)) then
        ((limit_response, []),
         \<lparr>hits = (hits sv)(req_key rq \<mapsto> increment (hits sv) (req_key rq) (req_time rq)),
          rng = rng sv\<rparr>)
      else
        ((fst (register rt cfg (upstream rq) (rng sv) (req_body rq)),
          fst (snd (register rt cfg (upstream rq) (rng sv) (req_body rq)))),
         \<lparr>hits = (hits sv)(req_key rq \<mapsto> increment (hits sv) (req_key rq) (req_time rq)),
          rng = snd (snd (register rt cfg (upstream rq) (rng sv) (req_body rq)))\<rparr>))"
  by (simp add: post_register_def registerLimiter_def Let_def case_prod_unfold)

lemma hits_after_post_register:
  "hits (snd (post_register rt cfg sv rq)) =
     (hits sv)(req_key rq \<mapsto> increment (hits sv) (req_key rq) (req_time rq))"
  by (simp add: post_register_eq)

lemma post_register_over_limit:
  assumes "max_requests < fst (increment (hits sv) (req_key rq) (req_time rq))"
  shows "fst (post_register rt cfg sv rq) = (limit_response, [])"
  using assms by (simp add: post_register_eq)

lemma post_register_admitted:
  assumes "\<not> max_requests < fst (increment (hits sv) (req_key rq) (req_time rq))"
  shows "fst (post_register rt cfg sv rq) =
     (case register rt cfg (upstream rq) (rng sv) (req_body rq) of (r, calls, pos') \<Rightarrow> (r, calls))"
    and "rng (snd (post_register rt cfg sv rq)) =
     snd (snd (register rt cfg (upstream rq) (rng sv) (req_body rq)))"
  using assms by (simp_all add: post_register_eq case_prod_unfold)

lemma outcomes_of_Cons:
  "outcomes_of key (rq # rqs) (out # outs) =
     (if req_key rq = key then out # outcomes_of key rqs outs else outcomes_of key rqs outs)"
  by (simp add: outcomes_of_def)

lemma serve_all_Cons:
  "serve_all rt cfg sv (rq # rqs) =
     fst (post_register rt cfg sv rq) # serve_all rt cfg (snd (post_register rt cfg sv rq)) rqs"
  by (simp add: case_prod_unfold Let_def)

lemma running_window:
  assumes "hits sv key = Some (c, reset)"
    and "\<forall>rq \<in> set rqs. req_key rq = key \<longrightarrow> req_time rq < reset"
  shows "drop (max_requests - c) (outcomes_of key rqs (serve_all rt cfg sv rqs)) =
     replicate (length (filter (\<lambda>rq. req_key rq = key) rqs) - (max_requests - c))
       (limit_response, [])"
  using assms
proof (induction rqs arbitrary: sv c)
  case Nil
  show ?case by (simp add: outcomes_of_def)
next
  case (Cons rq rqs)
  let ?sv = "snd (post_register rt cfg sv rq)"
  let ?n = "length (filter (\<lambda>rq. req_key rq = key) rqs)"
  let ?rest = "outcomes_of key rqs (serve_all rt cfg ?sv rqs)"
  from Cons.prems(2) have later: "\<forall>r \<in> set rqs. req_key r = key \<longrightarrow> req_time r < reset"
    by simp
  show ?case
  proof (cases "req_key rq = key")
    case False
    with Cons.prems(1) have "hits ?sv key = Some (c, reset)"
      by (simp add: hits_after_post_register)
    from Cons.IH [OF this later] False show ?thesis
      by (simp add: serve_all_Cons outcomes_of_Cons del: serve_all.simps)
  next
    case True
    with Cons.prems have inc: "increment (hits sv) (req_key rq) (req_time rq) = (Suc c, reset)"
      by (simp add: increment_running)
    with True have "hits ?sv key = Some (Suc c, reset)"
      by (simp add: hits_after_post_register)
    from Cons.IH [OF this later]
    have rest: "drop (max_requests - Suc c) ?rest =
        replicate (?n - (max_requests - Suc c)) (limit_response, [])" .
    show ?thesis
    proof (cases "max_requests \<le> c")
      case over: True
      with inc have "fst (post_register rt cfg sv rq) = (limit_response, [])"
        by (simp add: post_register_over_limit)
      with rest over True show ?thesis
        by (simp add: serve_all_Cons outcomes_of_Cons del: serve_all.simps)
    next
      case under: False
      then have "max_requests - c = Suc (max_requests - Suc c)" by simp
      with rest True under show ?thesis
        by (simp add: serve_all_Cons outcomes_of_Cons Suc_diff_le del: serve_all.simps)
    qed
  qed
qed

text \<open>
  C7. Once a key has no running window, its next attempt opens one of 15 minutes. Of
  the attempts of that key before the window ends, whatever other keys do in between,
  only the first five reach the handler: every later one is answered with the limiter's
  payload, whatever its body, and makes no outbound call.
\<close>

theorem rate_limit_window:
  assumes "case hits sv key of None \<Rightarrow> True | Some (c, reset) \<Rightarrow> reset \<le> req_time rq"
    and "req_key rq = key"
    and "\<forall>r \<in> set rqs. req_key r = key \<longrightarrow> req_time r < req_time rq + windowMs"
  shows "hd (serve_all rt cfg sv (rq # rqs)) =
      (case register rt cfg (upstream rq) (rng sv) (req_body rq) of (r, calls, pos') \<Rightarrow> (r, calls)) \<and>
    drop 5 (outcomes_of key (rq # rqs) (serve_all rt cfg sv (rq # rqs))) =
      replicate (length (filter (\<lambda>r. req_key r = key) (rq # rqs)) - 5) (limit_response, [])"
proof -
  let ?sv = "snd (post_register rt cfg sv rq)"
  from assms(1,2) have inc: "increment (hits sv) (req_key rq) (req_time rq) = (1, req_time rq + windowMs)"
    by (simp add: increment_opening)
  then have first: "fst (post_register rt cfg sv rq) =
      (case register rt cfg (upstream rq) (rng sv) (req_body rq) of (r, calls, pos') \<Rightarrow> (r, calls))"
    by (simp add: post_register_admitted max_requests_def)
  from inc assms(2) have "hits ?sv key = Some (1, req_time rq + windowMs)"
    by (simp add: hits_after_post_register)
  from running_window [OF this assms(3), of rt cfg]
  have "drop 4 (outcomes_of key rqs (serve_all rt cfg ?sv rqs)) =
      replicate (length (filter (\<lambda>r. req_key r = key) rqs) - 4) (limit_response, [])"
    by (simp add: max_requests_def)
  with assms(2) first show ?thesis
    by (simp add: serve_all_Cons outcomes_of_Cons del: serve_all.simps)
qed

text \<open>
  Seven attempts of one client within a quarter of an hour, valid and invalid, with an
  attempt of another client in between.
\<close>

theorem rate_limit_window_witness:
  "hits fresh_server (jstr ''10.0.0.1'') = None \<and>
   req_key (attempt ''10.0.0.1'' 1000 alice_body) = jstr ''10.0.0.1'' \<and>
   seven_attempts = attempt ''10.0.0.1'' 1000 alice_body # tl seven_attempts \<and>
   list_all (\<lambda>r. req_time r < 1000 + windowMs) (tl seven_attempts) \<and>
   length (filter (\<lambda>r. req_key r = jstr ''10.0.0.1'') seven_attempts) = 7 \<and>
   drop 5 (outcomes_of (jstr ''10.0.0.1'') seven_attempts
     (serve_all sample_runtime sample_config fresh_server seven_attempts)) =
     [(limit_response, []), (limit_response, [])]"
proof -
  let ?k = "jstr ''10.0.0.1''"
  let ?rq = "attempt ''10.0.0.1'' 1000 alice_body"
  have h: "hits fresh_server ?k = None" by (simp add: fresh_server_def)
  then have h': "case hits fresh_server ?k of None \<Rightarrow> True | Some (c, reset) \<Rightarrow> reset \<le> req_time ?rq"
    by simp
  have k: "req_key ?rq = ?k" by (simp add: attempt_def)
  have s: "seven_attempts = ?rq # tl seven_attempts" by (simp add: seven_attempts_def)
  have t: "list_all (\<lambda>r. req_time r < 1000 + windowMs) (tl seven_attempts)"
    by (simp add: seven_attempts_def attempt_def windowMs_def)
  then have t': "\<forall>r \<in> set (tl seven_attempts). req_key r = ?k \<longrightarrow> req_time r < req_time ?rq + windowMs"
    by (simp add: list_all_iff attempt_def)
  have n: "length (filter (\<lambda>r. req_key r = ?k) seven_attempts) = 7"
    by (simp add: seven_attempts_def attempt_def jstr_def)
  from rate_limit_window [OF h' k t', of sample_runtime sample_config] s n
  have "drop 5 (outcomes_of ?k seven_attempts
     (serve_all sample_runtime sample_config fresh_server seven_attempts)) =
     replicate 2 (limit_response, [])"
    by simp
  then have "drop 5 (outcomes_of ?k seven_attempts
     (serve_all sample_runtime sample_config fresh_server seven_attempts)) =
     [(limit_response, []), (limit_response, [])]"
    by (simp add: numeral_2_eq_2)
  with h k s t n show ?thesis by blast
qed

section \<open>One block of the random source for each call\<close>

lemma unat_hex_digit:
  assumes "n < 16"
  shows "unat (hex_digit n) = (if n < 10 then 48 + n else 87 + n)"
proof -
  have small: "unat (of_nat k :: cu) = k" if "k < 65536" for k
    using that by (simp only: unat_of_nat) simp
  from assms have "48 + n < 65536" "87 + n < 65536" by simp_all
  then show ?thesis
    unfolding hex_digit_def by (simp only: small if_distrib [of unat])
qed

lemma hex_digit_inject:
  assumes "hex_digit m = hex_digit n" and "m < 16" and "n < 16"
  shows "m = n"
proof -
  from assms(1) have "unat (hex_digit m) = unat (hex_digit n)" by simp
  with assms(2,3) show ?thesis
    by (simp add: unat_hex_digit split: if_splits)
qed

lemma byte_digits_inject:
  fixes a b :: byte
  assumes "hex_digit (unat a div 16) = hex_digit (unat b div 16)"
    and "hex_digit (unat a mod 16) = hex_digit (unat b mod 16)"
  shows "a = b"
proof -
  have "unat a < 256" "unat b < 256"
    using unsigned_less [of a] unsigned_less [of b] by simp_all
  then have "unat a div 16 < 16" "unat b div 16 < 16" by simp_all
  with assms(1) have d: "unat a div 16 = unat b div 16" by (rule hex_digit_inject)
  have "unat a mod 16 = unat b mod 16"
    using assms(2) by (rule hex_digit_inject) simp_all
  with d have "unat a = unat b"
    by (metis div_mult_mod_eq)
  then show ?thesis by (simp add: word_unat_eq_iff)
qed

lemma toHex_inject: "toHex as = toHex bs \<Longrightarrow> as = bs"
proof (induction as arbitrary: bs)
  case Nil
  then show ?case by (cases bs) (simp_all add: toHex_def)
next
  case (Cons a as)
  then obtain b bs' where bs: "bs = b # bs'"
    by (cases bs) (simp_all add: toHex_def)
  with Cons.prems have "hex_digit (unat a div 16) = hex_digit (unat b div 16)"
    "hex_digit (unat a mod 16) = hex_digit (unat b mod 16)" "toHex as = toHex bs'"
    by (simp_all add: toHex_def)
  with Cons.IH bs show ?case by (simp add: byte_digits_inject)
qed

lemma carried_issued_call:
  "carried (issued_call rt cfg pos username password email) =
     (Some (JStr (toHex (drawn rt pos))),
      Some (JStr (toHex (md5 rt (env_string (ADMIN_PASSWORD cfg) @ toHex (drawn rt pos))))))"
  by (simp add: carried_def issued_call_def createUser_call_def generateSubsonicAuth_eq drawn_def
      jstr_def)

lemma register_calls:
  "(fst (snd (register rt cfg axios_get pos reqbody)) = [] \<and>
      snd (snd (register rt cfg axios_get pos reqbody)) = pos) \<or>
   (\<exists>u p e. fst (snd (register rt cfg axios_get pos reqbody)) = [issued_call rt cfg pos u p e] \<and>
      snd (snd (register rt cfg axios_get pos reqbody)) = pos + 16)"
proof (cases "validation rt reqbody")
  case (Inl e)
  then show ?thesis by (simp add: register_def)
next
  case (Inr v)
  show ?thesis
  proof (cases v)
    case (Inl rejection)
    with Inr show ?thesis by (simp add: register_def)
  next
    case (Inr fields)
    obtain u p e where "fields = (u, p, e)" by (cases fields)
    with Inr \<open>validation rt reqbody = Inr v\<close>
    have "validation rt reqbody = Inr (Inr (u, p, e))" by simp
    then have "fst (snd (register rt cfg axios_get pos reqbody)) = [issued_call rt cfg pos u p e]"
      "snd (snd (register rt cfg axios_get pos reqbody)) = pos + 16"
      by (simp_all add: register_passes create_user_eq)
    then show ?thesis by blast
  qed
qed

lemma post_register_made_call:
  assumes "fst (post_register rt cfg sv rq) = (r, [c])"
  shows "\<exists>u p e. c = issued_call rt cfg (rng sv) u p e"
    and "rng (snd (post_register rt cfg sv rq)) = rng sv + 16"
proof -
  from assms have adm: "\<not> max_requests < fst (increment (hits sv) (req_key rq) (req_time rq))"
    by (auto simp: post_register_eq split: if_splits)
  with assms have c: "fst (snd (register rt cfg (upstream rq) (rng sv) (req_body rq))) = [c]"
    by (simp add: post_register_eq)
  with register_calls [of rt cfg "upstream rq" "rng sv" "req_body rq"]
  show "\<exists>u p e. c = issued_call rt cfg (rng sv) u p e" by auto
  from c register_calls [of rt cfg "upstream rq" "rng sv" "req_body rq"] adm
  show "rng (snd (post_register rt cfg sv rq)) = rng sv + 16"
    by (auto simp: post_register_eq)
qed

lemma rng_post_register: "rng sv \<le> rng (snd (post_register rt cfg sv rq))"
  using register_calls [of rt cfg "upstream rq" "rng sv" "req_body rq"]
  by (auto simp: post_register_eq)

lemma rng_serve_state: "rng sv \<le> rng (serve_state rt cfg sv rqs)"
proof (induction rqs arbitrary: sv)
  case Nil
  show ?case by (simp add: serve_state_def)
next
  case (Cons rq rqs)
  have "rng sv \<le> rng (snd (post_register rt cfg sv rq))" by (rule rng_post_register)
  also have "\<dots> \<le> rng (serve_state rt cfg (snd (post_register rt cfg sv rq)) rqs)"
    by (rule Cons.IH)
  finally show ?case by (simp add: serve_state_def)
qed

lemma fresh_salt_per_call:
  assumes "fst (post_register rt cfg sv rq1) = (r1, [c1])"
    and "sv2 = serve_state rt cfg (snd (post_register rt cfg sv rq1)) between"
    and "fst (post_register rt cfg sv2 rq2) = (r2, [c2])"
  shows "rng sv + 16 \<le> rng sv2 \<and>
    carried c1 =
      (Some (JStr (toHex (drawn rt (rng sv)))),
       Some (JStr (toHex (md5 rt (env_string (ADMIN_PASSWORD cfg) @ toHex (drawn rt (rng sv))))))) \<and>
    carried c2 =
      (Some (JStr (toHex (drawn rt (rng sv2)))),
       Some (JStr (toHex (md5 rt (env_string (ADMIN_PASSWORD cfg) @ toHex (drawn rt (rng sv2))))))) \<and>
    (carried c1 = carried c2) = (drawn rt (rng sv) = drawn rt (rng sv2))"
proof -
  from post_register_made_call [OF assms(1)] obtain u p e
    where c1: "c1 = issued_call rt cfg (rng sv) u p e"
      and r1: "rng (snd (post_register rt cfg sv rq1)) = rng sv + 16" by blast
  from post_register_made_call(1) [OF assms(3)] obtain u' p' e'
    where c2: "c2 = issued_call rt cfg (rng sv2) u' p' e'" by blast
  from r1 assms(2) rng_serve_state [of "snd (post_register rt cfg sv rq1)" rt cfg between]
  have "rng sv + 16 \<le> rng sv2" by simp
  moreover have "(carried c1 = carried c2) = (drawn rt (rng sv) = drawn rt (rng sv2))"
    unfolding c1 c2 carried_issued_call by (auto dest: toHex_inject)
  ultimately show ?thesis
    by (simp add: c1 c2 carried_issued_call)
qed

lemma register_start_eq:
  "register_start rt cfg pos reqbody =
     (case validation rt reqbody of
        Inl e \<Rightarrow> (Answered (catch_block e), pos)
      | Inr (Inl rejection) \<Rightarrow> (Answered rejection, pos)
      | Inr (Inr (username, password, email)) \<Rightarrow>
          (Waiting username (issued_call rt cfg pos username password email), pos + 16))"
  by (simp add: register_start_def issued_call_def generateSubsonicAuth_eq Let_def
      split: sum.splits prod.splits)

text \<open>The handler run in one piece is its start followed by its resumption.\<close>

lemma register_in_two_steps:
  "register rt cfg axios_get pos reqbody =
     (case register_start rt cfg pos reqbody of
        (Answered r, pos') \<Rightarrow> (r, [], pos')
      | (Waiting username call, pos') \<Rightarrow>
          (register_resume username (axios_get call), [call], pos'))"
  by (simp add: register_def register_start_eq create_user_eq register_resume_def
      split: sum.splits prod.splits axios_result.splits)

lemma credential_at_eq:
  "credential_at rt cfg pos =
     (Some (JStr (toHex (drawn rt pos))),
      Some (JStr (toHex (md5 rt (env_string (ADMIN_PASSWORD cfg) @ toHex (drawn rt pos))))))"
  by (simp add: credential_at_def generateSubsonicAuth_eq drawn_def)

lemma carried_is_credential:
  "carried (issued_call rt cfg pos username password email) = credential_at rt cfg pos"
  by (simp add: carried_issued_call credential_at_eq)

lemma arrive_cases:
  "(\<exists>c. fst (arrive rt cfg nd key now reqbody) = Issues c \<and>
        carried c = credential_at rt cfg (rng (srv nd)) \<and>
        rng (srv (snd (arrive rt cfg nd key now reqbody))) = rng (srv nd) + 16) \<or>
   ((\<forall>c. fst (arrive rt cfg nd key now reqbody) \<noteq> Issues c) \<and>
      rng (srv (snd (arrive rt cfg nd key now reqbody))) = rng (srv nd))"
  by (auto simp: arrive_def registerLimiter_def register_start_eq carried_is_credential Let_def
      split: prod.splits option.splits sum.splits if_splits)

lemma occur_cases:
  "(\<exists>c. fst (occur rt cfg nd ev) = Issues c \<and>
        carried c = credential_at rt cfg (rng (srv nd)) \<and>
        rng (srv (snd (occur rt cfg nd ev))) = rng (srv nd) + 16) \<or>
   ((\<forall>c. fst (occur rt cfg nd ev) \<noteq> Issues c) \<and>
      rng (srv (snd (occur rt cfg nd ev))) = rng (srv nd))"
proof (cases ev)
  case (Arrives key now reqbody)
  then show ?thesis using arrive_cases [of rt cfg nd key now reqbody] by simp
next
  case (Settles n result)
  then show ?thesis by (simp add: settle_def)
qed

lemma issued_other: "(\<forall>c. eff \<noteq> Issues c) \<Longrightarrow> issued (eff # effs) = issued effs"
  by (cases eff) simp_all

lemma length_issued: "length (issued effs) \<le> length effs"
  by (induction effs rule: issued.induct) simp_all

lemma length_process: "length (process rt cfg nd evs) = length evs"
  by (induction evs arbitrary: nd) simp_all

lemma issued_trace:
  "map carried (issued (process rt cfg nd evs)) =
     map (\<lambda>k. credential_at rt cfg (rng (srv nd) + 16 * k))
       [0 ..< length (issued (process rt cfg nd evs))]"
proof (induction evs arbitrary: nd)
  case Nil
  show ?case by simp
next
  case (Cons ev evs)
  let ?nd = "snd (occur rt cfg nd ev)"
  let ?rest = "issued (process rt cfg ?nd evs)"
  from occur_cases [of rt cfg nd ev] show ?case
  proof
    assume "\<exists>c. fst (occur rt cfg nd ev) = Issues c \<and>
        carried c = credential_at rt cfg (rng (srv nd)) \<and>
        rng (srv ?nd) = rng (srv nd) + 16"
    then obtain c where c: "fst (occur rt cfg nd ev) = Issues c"
      "carried c = credential_at rt cfg (rng (srv nd))" "rng (srv ?nd) = rng (srv nd) + 16"
      by blast
    have "[0 ..< Suc (length ?rest)] = 0 # map Suc [0 ..< length ?rest]"
      by (simp add: upt_conv_Cons map_Suc_upt del: upt_Suc)
    then have "map (\<lambda>k. credential_at rt cfg (rng (srv nd) + 16 * k)) [0 ..< Suc (length ?rest)] =
        credential_at rt cfg (rng (srv nd)) #
        map (\<lambda>k. credential_at rt cfg (rng (srv ?nd) + 16 * k)) [0 ..< length ?rest]"
      by (simp add: c(3) comp_def add.assoc del: upt_Suc)
    with c Cons.IH [of ?nd] show ?thesis by (simp del: upt_Suc)
  next
    assume a: "(\<forall>c. fst (occur rt cfg nd ev) \<noteq> Issues c) \<and> rng (srv ?nd) = rng (srv nd)"
    then have "issued (process rt cfg nd (ev # evs)) = ?rest"
      by (simp add: issued_other)
    with a Cons.IH [of ?nd] show ?thesis by simp
  qed
qed

text \<open>
  C8. In every run of the process, requests arriving and promises settling in any
  order, also at the same time, the calls issued carry one after the other the
  credentials computed from successive blocks of 16 bytes of the random source: every
  call reads its own block and nothing is kept from one call to another. So, the source
  having returned different blocks during the run, no two calls share a salt/token pair.
\<close>

theorem no_two_calls_share_a_credential:
  assumes "distinct (map (\<lambda>k. drawn rt (rng (srv nd) + 16 * k)) [0 ..< length evs])"
  shows "map carried (issued (process rt cfg nd evs)) =
      map (\<lambda>k. credential_at rt cfg (rng (srv nd) + 16 * k))
        [0 ..< length (issued (process rt cfg nd evs))] \<and>
    distinct (map carried (issued (process rt cfg nd evs)))"
proof -
  let ?n = "length (issued (process rt cfg nd evs))"
  let ?h = "\<lambda>k. drawn rt (rng (srv nd) + 16 * k)"
  let ?g = "\<lambda>block. (Some (JStr (toHex block)),
      Some (JStr (toHex (md5 rt (env_string (ADMIN_PASSWORD cfg) @ toHex block)))))"
  have n: "?n \<le> length evs"
    using length_issued [of "process rt cfg nd evs"] by (simp add: length_process)
  then have "map ?h [0 ..< ?n] = take ?n (map ?h [0 ..< length evs])"
    by (simp add: take_map min_def)
  with assms have d: "distinct (map ?h [0 ..< ?n])"
    by (simp only: distinct_take)
  have "inj ?g"
    by (auto simp: inj_on_def dest: toHex_inject)
  then have "inj_on ?g (set (map ?h [0 ..< ?n]))"
    by (rule inj_on_subset) simp
  with d have "distinct (map ?g (map ?h [0 ..< ?n]))"
    by (simp only: distinct_map)
  moreover have "map ?g (map ?h [0 ..< ?n]) =
      map (\<lambda>k. credential_at rt cfg (rng (srv nd) + 16 * k)) [0 ..< ?n]"
    by (simp add: credential_at_eq)
  ultimately show ?thesis
    by (simp only: issued_trace [of rt cfg nd evs])
qed

lemma other_address: "jstr ''10.0.0.2'' \<noteq> jstr ''10.0.0.1''"
  by (simp add: jstr_def)

lemma sample_salt_0:
  "toHex (drawn sample_runtime 0) = jstr ''000102030405060708090a0b0c0d0e0f''"
  unfolding drawn_def by code_simp

lemma sample_salt_16:
  "toHex (drawn sample_runtime 16) = jstr ''101112131415161718191a1b1c1d1e1f''"
  unfolding drawn_def by code_simp

lemma arrive_first_ok:
  assumes "hits (srv nd) key = None"
    and "validation rt reqbody = Inr (Inr (u, p, e))"
  shows "arrive rt cfg nd key t reqbody =
    (Issues (issued_call rt cfg (rng (srv nd)) u p e),
     \<lparr>srv = \<lparr>hits = (hits (srv nd))(key \<mapsto> (Suc 0, t + windowMs)), rng = rng (srv nd) + 16\<rparr>,
      waiting = waiting nd @ [(u, issued_call rt cfg (rng (srv nd)) u p e)]\<rparr>)"
  using assms
  by (simp add: arrive_def registerLimiter_def increment_def max_requests_def register_start_eq)

lemma resume_ok:
  "register_resume u (Resolved (subsonic_reply [(jstr ''status'', JStr (jstr ''ok''))])) =
     account_created u"
  by (simp add: register_resume_def check_response_def get_prop_def subsonic_reply_def
      account_created_def)

lemma two_at_once_blocks:
  "distinct (map (\<lambda>k. drawn sample_runtime (rng (srv fresh_node) + 16 * k))
     [0 ..< length two_at_once])"
proof -
  have "length two_at_once = 4" by (simp add: two_at_once_def)
  moreover have "rng (srv fresh_node) = 0" by (simp add: fresh_node_def)
  moreover have "distinct (map (\<lambda>k. drawn sample_runtime (0 + 16 * k)) [0 ..< 4])"
    unfolding drawn_def by code_simp
  ultimately show ?thesis by simp
qed

lemma two_at_once_trace:
  "process sample_runtime sample_config fresh_node two_at_once =
     [Issues (issued_call sample_runtime sample_config 0
        (JStr (jstr ''alice'')) (JStr (jstr ''correct horse'')) (JStr (jstr ''a@b.co''))),
      Issues (issued_call sample_runtime sample_config 16
        (JStr (jstr ''bob_2'')) (JStr (jstr ''hunter2hunter2'')) (JStr (jstr ''bob@mail.example.org''))),
      Responds (account_created (JStr (jstr ''bob_2''))),
      Responds (account_created (JStr (jstr ''alice'')))]"
  by (simp add: two_at_once_def fresh_node_def arrive_first_ok [OF _ alice_passes_any]
      arrive_first_ok [OF _ bob_passes_any] other_address settle_def resume_ok)

text \<open>
  Two registrations arrive in the same millisecond; both wait for the upstream server
  at the same time, and the second gets its answer first.
\<close>

theorem no_two_calls_share_a_credential_witness:
  "distinct (map (\<lambda>k. drawn sample_runtime (rng (srv fresh_node) + 16 * k))
     [0 ..< length two_at_once]) \<and>
   process sample_runtime sample_config fresh_node two_at_once =
     [Issues (issued_call sample_runtime sample_config 0
        (JStr (jstr ''alice'')) (JStr (jstr ''correct horse'')) (JStr (jstr ''a@b.co''))),
      Issues (issued_call sample_runtime sample_config 16
        (JStr (jstr ''bob_2'')) (JStr (jstr ''hunter2hunter2'')) (JStr (jstr ''bob@mail.example.org''))),
      Responds (account_created (JStr (jstr ''bob_2''))),
      Responds (account_created (JStr (jstr ''alice'')))] \<and>
   map carried (issued (process sample_runtime sample_config fresh_node two_at_once)) =
     [(Some (JStr (jstr ''000102030405060708090a0b0c0d0e0f'')), Some (JStr (jstr ''1fa0''))),
      (Some (JStr (jstr ''101112131415161718191a1b1c1d1e1f'')), Some (JStr (jstr ''1fa0'')))] \<and>
   distinct (map carried (issued (process sample_runtime sample_config fresh_node two_at_once)))"
proof -
  note inst = no_two_calls_share_a_credential [OF two_at_once_blocks, of sample_config]
  have n: "length (issued (process sample_runtime sample_config fresh_node two_at_once)) = 2"
    by (simp add: two_at_once_trace)
  have r: "rng (srv fresh_node) = 0" by (simp add: fresh_node_def)
  have l: "[0 ..< 2] = [0, Suc 0]" by (simp add: upt_rec)
  from inst have "map carried (issued (process sample_runtime sample_config fresh_node two_at_once)) =
      [credential_at sample_runtime sample_config 0, credential_at sample_runtime sample_config 16]"
    by (simp add: n r l)
  then have c: "map carried (issued (process sample_runtime sample_config fresh_node two_at_once)) =
     [(Some (JStr (jstr ''000102030405060708090a0b0c0d0e0f'')), Some (JStr (jstr ''1fa0''))),
      (Some (JStr (jstr ''101112131415161718191a1b1c1d1e1f'')), Some (JStr (jstr ''1fa0'')))]"
    by (simp add: credential_at_eq sample_salt_0 sample_salt_16 sample_token)
  from inst have d: "distinct (map carried
      (issued (process sample_runtime sample_config fresh_node two_at_once)))"
    by blast
  from two_at_once_blocks two_at_once_trace c d show ?thesis by blast
qed

end
